theory Spec2Isabelle
  imports Complex_Main "HOL-Library.Multiset" "HOL-Library.List_Lexorder"
begin

section \<open>The protein reconstruction notebook: data model\<close>

text \<open>
  The notebook \<^verbatim>\<open>protein.ipynb\<close> is a linear pipeline of plain functions over numpy
  arrays. An array object is a reference to a buffer together with the way the buffer is
  read; several array objects may share one buffer. The store of buffers is explicit, so
  that sharing and in-place writes are visible.

  The element type \<open>'a\<close> stands for Python's \<^verbatim>\<open>float\<close>; no property below depends on
  its arithmetic.
\<close>

datatype error = ValueError | AxisError | IndexError | IOError

text \<open>
  A buffer owns its data. Only the two ranks that occur in the notebook are represented:
  a one-dimensional array of shape \<open>(n,)\<close> and a two-dimensional array of shape
  \<open>(n, c)\<close>, kept as its \<open>n\<close> rows together with the column count \<open>c\<close> (which the
  rows alone do not determine when \<open>n = 0\<close>).
\<close>

datatype 'a buffer = Arr1 "'a list" | Arr2 nat "'a list list"

type_synonym addr = nat

type_synonym 'a heap = "'a buffer list"

text \<open>
  An array object: the address of its buffer, and whether it reads the buffer with the
  second axis reversed (what \<^verbatim>\<open>np.flip(m, axis=1)\<close>, a view with a negated stride,
  amounts to).
\<close>

record ndarray =
  base :: addr
  flip1 :: bool

fun shape :: "'a buffer \<Rightarrow> nat list" where
  "shape (Arr1 xs) = [length xs]"
| "shape (Arr2 c rows) = [length rows, c]"

text \<open>\<^verbatim>\<open>len(a)\<close>: the extent of the first axis.\<close>

fun len :: "'a buffer \<Rightarrow> nat" where
  "len (Arr1 xs) = length xs"
| "len (Arr2 c rows) = length rows"

fun ndim :: "'a buffer \<Rightarrow> nat" where
  "ndim (Arr1 xs) = 1"
| "ndim (Arr2 c rows) = 2"

fun view_buffer :: "bool \<Rightarrow> 'a buffer \<Rightarrow> 'a buffer" where
  "view_buffer f (Arr1 xs) = Arr1 xs"
| "view_buffer f (Arr2 c rows) = Arr2 c (if f then map rev rows else rows)"

text \<open>
  The value an array object denotes in a store. An array object is live in a store when
  its base is an address of that store; Python never holds a reference to anything else.
\<close>

definition contents :: "'a heap \<Rightarrow> ndarray \<Rightarrow> 'a buffer" where
  "contents h a = view_buffer (flip1 a) (h ! base a)"

text \<open>Allocation of a fresh buffer: the new array object owns it and reads it plainly.\<close>

definition alloc :: "'a buffer \<Rightarrow> 'a heap \<Rightarrow> ndarray \<times> 'a heap" where
  "alloc b h = (\<lparr>base = length h, flip1 = False\<rparr>, h @ [b])"

text \<open>
  \<^verbatim>\<open>np.array(rows)\<close> for a Python list of equally long rows, as \<^verbatim>\<open>parse_pdb\<close> builds
  it: the empty list gives the one-dimensional array of shape \<open>(0,)\<close>, a non-empty list
  of rows a two-dimensional array.
\<close>

definition array_of_rows :: "'a list list \<Rightarrow> 'a buffer" where
  "array_of_rows rows = (if rows = [] then Arr1 [] else Arr2 (length (hd rows)) rows)"

definition np_array :: "'a list list \<Rightarrow> 'a heap \<Rightarrow> ndarray \<times> 'a heap" where
  "np_array rows h = alloc (array_of_rows rows) h"

section \<open>The library operations used by the notebook\<close>

subsection \<open>Flip along the second axis\<close>

text \<open>
  \<^verbatim>\<open>np.flip(m, axis=1)\<close> returns a view of \<open>m\<close>: no data is copied. An array with
  fewer than two axes has no axis 1, and numpy raises \<^verbatim>\<open>AxisError\<close> (a subclass of
  both \<^verbatim>\<open>ValueError\<close> and \<^verbatim>\<open>IndexError\<close>, kept apart here).
\<close>

definition np_flip_axis1 :: "'a heap \<Rightarrow> ndarray \<Rightarrow> error + ndarray" where
  "np_flip_axis1 h m =
     (if ndim (h ! base m) < 2 then Inl AxisError
      else Inr (m\<lparr>flip1 := \<not> flip1 m\<rparr>))"

subsection \<open>Random permutation\<close>

text \<open>
  The random source is the sequence of raw outcomes it will deliver, \<open>rs 0, rs 1, \<dots>\<close>.
  \<^verbatim>\<open>random_interval(i)\<close> turns the next outcome into an index in the closed interval
  \<open>[0, i]\<close>. The shuffle is numpy's: for \<open>i\<close> from \<open>n - 1\<close> down to \<open>1\<close>, exchange
  the items at \<open>i\<close> and at a random index in \<open>[0, i]\<close>. On a two-dimensional array the
  items are the rows.
\<close>

definition swap :: "nat \<Rightarrow> nat \<Rightarrow> 'b list \<Rightarrow> 'b list" where
  "swap i j xs = xs[i := xs ! j, j := xs ! i]"

definition random_interval :: "(nat \<Rightarrow> nat) \<Rightarrow> nat \<Rightarrow> nat" where
  "random_interval rs i = rs 0 mod (Suc i)"

definition advance :: "(nat \<Rightarrow> nat) \<Rightarrow> (nat \<Rightarrow> nat)" where
  "advance rs = (\<lambda>k. rs (Suc k))"

fun shuffle_loop :: "(nat \<Rightarrow> nat) \<Rightarrow> nat \<Rightarrow> 'b list \<Rightarrow> 'b list" where
  "shuffle_loop rs 0 xs = xs"
| "shuffle_loop rs (Suc k) xs =
     shuffle_loop (advance rs) k (swap (Suc k) (random_interval rs (Suc k)) xs)"

definition shuffle :: "(nat \<Rightarrow> nat) \<Rightarrow> 'b list \<Rightarrow> 'b list" where
  "shuffle rs xs = shuffle_loop rs (length xs - 1) xs"

fun shuffle_buffer :: "(nat \<Rightarrow> nat) \<Rightarrow> 'a buffer \<Rightarrow> 'a buffer" where
  "shuffle_buffer rs (Arr1 xs) = Arr1 (shuffle rs xs)"
| "shuffle_buffer rs (Arr2 c rows) = Arr2 c (shuffle rs rows)"

text \<open>\<^verbatim>\<open>RandomState.shuffle(a)\<close>: in place, in the buffer of \<open>a\<close>.\<close>

definition np_random_shuffle :: "(nat \<Rightarrow> nat) \<Rightarrow> ndarray \<Rightarrow> 'a heap \<Rightarrow> 'a heap" where
  "np_random_shuffle rs a h = h[base a := shuffle_buffer rs (h ! base a)]"

text \<open>
  \<^verbatim>\<open>np.random.permutation(x)\<close> for an array \<open>x\<close>: copy \<open>x\<close> into a fresh array,
  shuffle the copy in place, return it.
\<close>

definition np_random_permutation ::
  "(nat \<Rightarrow> nat) \<Rightarrow> ndarray \<Rightarrow> 'a heap \<Rightarrow> ndarray \<times> 'a heap" where
  "np_random_permutation rs x h =
     (let (arr, h1) = alloc (contents h x) h
      in (arr, np_random_shuffle rs arr h1))"

section \<open>View synthesis\<close>

text \<open>
  \<^verbatim>\<open>
  def generate_views(coordinates):
      view1 = coordinates
      view2 = np.random.permutation(coordinates)
      view3 = np.flip(coordinates, axis=1)
      return view1, view2, view3
  \<close>
  \<open>view1\<close> is the argument itself (the same object), \<open>view2\<close> a fresh array, \<open>view3\<close>
  a view on the argument's buffer. The result carries the store after the call.
\<close>

definition generate_views ::
  "(nat \<Rightarrow> nat) \<Rightarrow> 'a heap \<Rightarrow> ndarray \<Rightarrow> error + ('a heap \<times> ndarray \<times> ndarray \<times> ndarray)" where
  "generate_views rs h coordinates =
     (let view1 = coordinates;
          (view2, h') = np_random_permutation rs coordinates h
      in case np_flip_axis1 h' coordinates of
           Inl e \<Rightarrow> Inl e
         | Inr view3 \<Rightarrow> Inr (h', view1, view2, view3))"

text \<open>
  A well-formed Coordinate Set in a store: a live array object that denotes a
  two-dimensional array with three columns, every row holding three numbers.
\<close>

definition coordinate_set :: "'a heap \<Rightarrow> ndarray \<Rightarrow> 'a list list \<Rightarrow> bool" where
  "coordinate_set h a rows \<longleftrightarrow>
     base a < length h \<and> contents h a = Arr2 3 rows \<and> list_all (\<lambda>r. length r = 3) rows"

section \<open>Parsing the structure file\<close>

text \<open>
  The file system maps a path to the lines of the text file stored there, each line as
  Python's file iteration yields it (with its line terminator). Opening a missing file
  fails.
\<close>

type_synonym fs = "string \<rightharpoonup> string list"

text \<open>\<^verbatim>\<open>s.startswith(p)\<close> and the slice \<^verbatim>\<open>s[i:j]\<close> for \<open>0 \<le> i\<close>, \<open>0 \<le> j\<close>: a slice
  never fails, it is cut at the end of the string.\<close>

definition startswith :: "string \<Rightarrow> string \<Rightarrow> bool" where
  "startswith s p \<longleftrightarrow> take (length p) s = p"

definition slice :: "nat \<Rightarrow> nat \<Rightarrow> 'b list \<Rightarrow> 'b list" where
  "slice i j s = take (j - i) (drop i s)"

text \<open>
  \<^verbatim>\<open>
  def parse_pdb(file_path):
      coordinates = []
      with open(file_path, 'r') as pdb_file:
          for line in pdb_file:
              if line.startswith('ATOM'):
                  x, y, z = float(line[30:38]), float(line[38:46]), float(line[46:54])
                  coordinates.append([x, y, z])
      return np.array(coordinates)
  \<close>
  Python's \<^verbatim>\<open>float\<close> on a string is the parameter \<open>pyfloat\<close>: \<open>None\<close> where
  \<^verbatim>\<open>float\<close> raises \<^verbatim>\<open>ValueError\<close>. The exception is not caught in \<^verbatim>\<open>parse_pdb\<close>.
\<close>

fun parse_lines :: "(string \<Rightarrow> 'a option) \<Rightarrow> string list \<Rightarrow> 'a list list \<Rightarrow> error + 'a list list" where
  "parse_lines pyfloat [] coordinates = Inr coordinates"
| "parse_lines pyfloat (line # rest) coordinates =
     (if startswith line ''ATOM'' then
        (case pyfloat (slice 30 38 line) of
           None \<Rightarrow> Inl ValueError
         | Some x \<Rightarrow>
             (case pyfloat (slice 38 46 line) of
                None \<Rightarrow> Inl ValueError
              | Some y \<Rightarrow>
                  (case pyfloat (slice 46 54 line) of
                     None \<Rightarrow> Inl ValueError
                   | Some z \<Rightarrow> parse_lines pyfloat rest (coordinates @ [[x, y, z]]))))
      else parse_lines pyfloat rest coordinates)"

definition parse_pdb ::
  "(string \<Rightarrow> 'a option) \<Rightarrow> fs \<Rightarrow> string \<Rightarrow> 'a heap \<Rightarrow> error + (ndarray \<times> 'a heap)" where
  "parse_pdb pyfloat files file_path h =
     (case files file_path of
        None \<Rightarrow> Inl IOError
      | Some pdb_file \<Rightarrow>
          (case parse_lines pyfloat pdb_file [] of
             Inl e \<Rightarrow> Inl e
           | Inr coordinates \<Rightarrow> Inr (np_array coordinates h)))"

text \<open>
  The vocabulary of the file format: the characters of a line at the 1-indexed columns
  \<open>a\<close> to \<open>b\<close> (those of them that the line has), an atom record, and an atom record
  whose three coordinate fields convert.
\<close>

definition columns :: "nat \<Rightarrow> nat \<Rightarrow> string \<Rightarrow> string" where
  "columns a b line = map (\<lambda>k. line ! (k - 1)) (filter (\<lambda>k. k \<le> length line) [a..<Suc b])"

definition atom_record :: "string \<Rightarrow> bool" where
  "atom_record line \<longleftrightarrow> startswith line ''ATOM''"

definition numeric_fields :: "(string \<Rightarrow> 'a option) \<Rightarrow> string \<Rightarrow> bool" where
  "numeric_fields pyfloat line \<longleftrightarrow>
     pyfloat (columns 31 38 line) \<noteq> None \<and>
     pyfloat (columns 39 46 line) \<noteq> None \<and>
     pyfloat (columns 47 54 line) \<noteq> None"

definition row_of_record :: "(string \<Rightarrow> 'a option) \<Rightarrow> string \<Rightarrow> 'a list \<Rightarrow> bool" where
  "row_of_record pyfloat line row \<longleftrightarrow>
     map Some row =
       [pyfloat (columns 31 38 line), pyfloat (columns 39 46 line), pyfloat (columns 47 54 line)]"

section \<open>Building the training data\<close>

text \<open>
  \<^verbatim>\<open>np.vstack\<close> makes every argument at least two-dimensional (a one-dimensional array
  of length \<open>n\<close> becomes one row) and concatenates along the first axis; the column counts
  must agree and the sequence must not be empty. \<^verbatim>\<open>np.tile(a, (r, c))\<close> repeats the
  array \<open>r\<close> times downwards and \<open>c\<close> times across. Both return new arrays; they are
  given here by value.
\<close>

fun atleast_2d :: "'a buffer \<Rightarrow> 'a buffer" where
  "atleast_2d (Arr1 xs) = Arr2 (length xs) [xs]"
| "atleast_2d (Arr2 c rows) = Arr2 c rows"

fun ncols :: "'a buffer \<Rightarrow> nat" where
  "ncols (Arr1 xs) = length xs"
| "ncols (Arr2 c rows) = c"

fun rows_of :: "'a buffer \<Rightarrow> 'a list list" where
  "rows_of (Arr1 xs) = [xs]"
| "rows_of (Arr2 c rows) = rows"

definition np_vstack :: "'a buffer list \<Rightarrow> error + 'a buffer" where
  "np_vstack tup =
     (let arrs = map atleast_2d tup
      in if arrs = [] then Inl ValueError
         else if list_ex (\<lambda>a. ncols a \<noteq> ncols (hd arrs)) arrs then Inl ValueError
         else Inr (Arr2 (ncols (hd arrs)) (concat (map rows_of arrs))))"

definition np_tile :: "'a buffer \<Rightarrow> nat \<Rightarrow> nat \<Rightarrow> 'a buffer" where
  "np_tile a r c =
     Arr2 (c * ncols a)
       (concat (replicate r (map (\<lambda>row. concat (replicate c row)) (rows_of a))))"

text \<open>
  \<^verbatim>\<open>
  view1, view2, view3 = generate_views(original_coordinates)
  input_data = np.vstack([view1, view2, view3])
  output_data = np.tile(original_coordinates, (3, 1))
  \<close>
  and \<^verbatim>\<open>main\<close> from its start up to the call of \<^verbatim>\<open>train_model\<close>.
\<close>

definition training_data ::
  "(nat \<Rightarrow> nat) \<Rightarrow> 'a heap \<Rightarrow> ndarray \<Rightarrow> error + ('a buffer \<times> 'a buffer)" where
  "training_data rs h original_coordinates =
     (case generate_views rs h original_coordinates of
        Inl e \<Rightarrow> Inl e
      | Inr (h', view1, view2, view3) \<Rightarrow>
          (case np_vstack [contents h' view1, contents h' view2, contents h' view3] of
             Inl e \<Rightarrow> Inl e
           | Inr input_data \<Rightarrow>
               Inr (input_data, np_tile (contents h' original_coordinates) 3 1)))"

definition input_pdb_path :: string where
  "input_pdb_path = ''input/AF-O06917-F1-model_v4.pdb''"

definition main_data ::
  "(string \<Rightarrow> 'a option) \<Rightarrow> fs \<Rightarrow> (nat \<Rightarrow> nat) \<Rightarrow> 'a heap \<Rightarrow> error + ('a buffer \<times> 'a buffer)" where
  "main_data pyfloat files rs h =
     (case parse_pdb pyfloat files input_pdb_path h of
        Inl e \<Rightarrow> Inl e
      | Inr (original_coordinates, h1) \<Rightarrow> training_data rs h1 original_coordinates)"

section \<open>The train/test split\<close>

text \<open>
  The first statement of \<^verbatim>\<open>train_model\<close>:
  \<^verbatim>\<open>
  X_train, X_test, y_train, y_test =
      train_test_split(input_data, output_data, test_size=0.2, random_state=42)
  \<close>
  scikit-learn's \<^verbatim>\<open>train_test_split\<close> obtains its generator from
  \<^verbatim>\<open>check_random_state\<close>: the process-wide generator of \<^verbatim>\<open>np.random\<close> (the one
  \<^verbatim>\<open>generate_views\<close> draws from) when \<^verbatim>\<open>random_state\<close> is \<^verbatim>\<open>None\<close>, a new
  generator seeded with the given integer otherwise. \<open>RandomState seed\<close> is the outcome
  sequence of the generator seeded with \<open>seed\<close>. The fraction \<^verbatim>\<open>0.2\<close> is taken
  exactly, as \<open>2/10\<close>. The test part has
  \<open>\<lceil>test_size \<times> n\<rceil>\<close> rows, the training part the rest; an empty training part is an
  error. A permutation of the row indices is drawn; its first entries are the test part,
  the following ones the training part.
\<close>

definition check_random_state ::
  "(nat \<Rightarrow> nat \<Rightarrow> nat) \<Rightarrow> (nat \<Rightarrow> nat) \<Rightarrow> nat option \<Rightarrow> (nat \<Rightarrow> nat)" where
  "check_random_state RandomState global_rng random_state =
     (case random_state of None \<Rightarrow> global_rng | Some seed \<Rightarrow> RandomState seed)"

definition split_indices :: "(nat \<Rightarrow> nat) \<Rightarrow> nat \<Rightarrow> nat \<Rightarrow> nat list \<times> nat list" where
  "split_indices rng n_samples n_test =
     (let permutation = shuffle rng [0..<n_samples];
          ind_test = take n_test permutation;
          ind_train = take (n_samples - n_test) (drop n_test permutation)
      in (ind_train, ind_test))"

fun safe_indexing :: "'a buffer \<Rightarrow> nat list \<Rightarrow> 'a buffer" where
  "safe_indexing (Arr1 xs) ind = Arr1 (map (\<lambda>i. xs ! i) ind)"
| "safe_indexing (Arr2 c rows) ind = Arr2 c (map (\<lambda>i. rows ! i) ind)"

definition split_assignment ::
  "(nat \<Rightarrow> nat \<Rightarrow> nat) \<Rightarrow> (nat \<Rightarrow> nat) \<Rightarrow> nat \<Rightarrow> rat \<Rightarrow> nat option \<Rightarrow> error + (nat list \<times> nat list)" where
  "split_assignment RandomState global_rng n_samples test_size random_state =
     (let n_test = nat \<lceil>test_size * of_nat n_samples\<rceil>;
          n_train = n_samples - n_test
      in if n_train = 0 then Inl ValueError
         else Inr (split_indices (check_random_state RandomState global_rng random_state)
                     n_samples n_test))"

definition train_test_split ::
  "(nat \<Rightarrow> nat \<Rightarrow> nat) \<Rightarrow> (nat \<Rightarrow> nat) \<Rightarrow> 'a buffer \<Rightarrow> 'a buffer \<Rightarrow> rat \<Rightarrow> nat option
     \<Rightarrow> error + ('a buffer \<times> 'a buffer \<times> 'a buffer \<times> 'a buffer)" where
  "train_test_split RandomState global_rng X y test_size random_state =
     (if len X \<noteq> len y then Inl ValueError
      else case split_assignment RandomState global_rng (len X) test_size random_state of
             Inl e \<Rightarrow> Inl e
           | Inr (train, test) \<Rightarrow>
               Inr (safe_indexing X train, safe_indexing X test,
                    safe_indexing y train, safe_indexing y test))"

definition train_model_assignment ::
  "(nat \<Rightarrow> nat \<Rightarrow> nat) \<Rightarrow> (nat \<Rightarrow> nat) \<Rightarrow> 'a buffer \<Rightarrow> error + (nat list \<times> nat list)" where
  "train_model_assignment RandomState global_rng input_data =
     split_assignment RandomState global_rng (len input_data) (2 / 10) (Some 42)"

definition train_model_split ::
  "(nat \<Rightarrow> nat \<Rightarrow> nat) \<Rightarrow> (nat \<Rightarrow> nat) \<Rightarrow> 'a buffer \<Rightarrow> 'a buffer
     \<Rightarrow> error + ('a buffer \<times> 'a buffer \<times> 'a buffer \<times> 'a buffer)" where
  "train_model_split RandomState global_rng input_data output_data =
     train_test_split RandomState global_rng input_data output_data (2 / 10) (Some 42)"

section \<open>Writing the structure file\<close>

text \<open>
  \<^verbatim>\<open>
  def save_pdb(output_path, coordinates):
      with open(output_path, 'w') as pdb_file:
          for i, coord in enumerate(coordinates):
              pdb_file.write(f"ATOM  {i+1:4}  CA  ALA A   1     {coord[0]:7.3f} {coord[1]:7.3f} {coord[2]:7.3f}  1.00  0.00           C\n")
  \<close>
  A format specification with a width pads the converted text on the left with spaces up
  to that width (numbers are right-aligned); a longer text is not cut. \<open>{i+1:4}\<close>
  converts the integer to decimal digits. \<open>{v:7.3f}\<close> converts the float with the
  presentation \<^verbatim>\<open>.3f\<close>, which is the parameter \<open>fmt3f\<close> of the writer; \<open>fixed3\<close>
  below is that presentation on finite floats. The result is the sequence
  of strings written, which the file at \<^verbatim>\<open>output_path\<close> then holds one after the other.
\<close>

definition rjust :: "nat \<Rightarrow> string \<Rightarrow> string" where
  "rjust w s = replicate (w - length s) CHR '' '' @ s"

definition digit_char :: "nat \<Rightarrow> char" where
  "digit_char d = ''0123456789'' ! d"

fun str_nat :: "nat \<Rightarrow> string" where
  "str_nat n = (if n < 10 then [digit_char n] else str_nat (n div 10) @ [digit_char (n mod 10)])"

declare str_nat.simps [simp del]

definition newline :: char where
  "newline = CHR 0x0A"

definition pdb_record :: "('a \<Rightarrow> string) \<Rightarrow> nat \<Rightarrow> 'a list \<Rightarrow> error + string" where
  "pdb_record fmt3f i coord =
     (if length coord < 3 then Inl IndexError
      else Inr (''ATOM  '' @ rjust 4 (str_nat (i + 1)) @ ''  CA  ALA A   1     ''
                @ rjust 7 (fmt3f (coord ! 0)) @ '' '' @ rjust 7 (fmt3f (coord ! 1)) @ '' ''
                @ rjust 7 (fmt3f (coord ! 2)) @ ''  1.00  0.00           C'' @ [newline]))"

fun write_records :: "('a \<Rightarrow> string) \<Rightarrow> nat \<Rightarrow> 'a list list \<Rightarrow> string list \<Rightarrow> error + string list" where
  "write_records fmt3f i [] written = Inr written"
| "write_records fmt3f i (coord # rest) written =
     (case pdb_record fmt3f i coord of
        Inl e \<Rightarrow> Inl e
      | Inr record_line \<Rightarrow> write_records fmt3f (Suc i) rest (written @ [record_line]))"

text \<open>
  Iterating a two-dimensional array yields its rows. Iterating a one-dimensional array
  yields scalars, which cannot be indexed: the first \<open>coord[0]\<close> fails.
\<close>

fun save_pdb :: "('a \<Rightarrow> string) \<Rightarrow> 'a buffer \<Rightarrow> error + string list" where
  "save_pdb fmt3f (Arr2 c rows) = write_records fmt3f 0 rows []"
| "save_pdb fmt3f (Arr1 xs) = (if xs = [] then Inr [] else Inl IndexError)"

text \<open>
  The presentation \<^verbatim>\<open>.3f\<close> of a finite float. A finite float is a rational number,
  and Python writes the decimal numeral with three decimals that is nearest to its exact
  value, a tie going to the even last digit, with a minus sign for a negative value.
  Not-a-number, the infinities and the sign of a negative zero have no rational value and
  are not represented.
\<close>

definition round_half_even :: "rat \<Rightarrow> int" where
  "round_half_even q =
     (let f = \<lfloor>q\<rfloor>; d = q - of_int f
      in if d > 1 / 2 \<or> (d = 1 / 2 \<and> odd f) then f + 1 else f)"

definition fixed3 :: "rat \<Rightarrow> string" where
  "fixed3 x =
     (let n = nat (round_half_even (\<bar>x\<bar> * 1000))
      in (if x < 0 then ''-'' else []) @ str_nat (n div 1000) @ ''.''
         @ [digit_char (n div 100 mod 10), digit_char (n div 10 mod 10), digit_char (n mod 10)])"

section \<open>Plain decimal numbers\<close>

text \<open>
  A conversion from text to exact rational numbers, for running the parser on concrete
  files: \<open>plain_float\<close> reads an optionally signed decimal numeral with an optional
  fraction, surrounded by blanks, and rejects every other text. On such numerals it
  behaves as \<^verbatim>\<open>float\<close> does, up to binary rounding.
\<close>

definition is_digit :: "char \<Rightarrow> bool" where
  "is_digit ch \<longleftrightarrow> ch \<in> set ''0123456789''"

definition is_space :: "char \<Rightarrow> bool" where
  "is_space ch \<longleftrightarrow> ch = CHR '' '' \<or> ch = CHR 0x0A \<or> ch = CHR 0x0D \<or> ch = CHR 0x09"

definition strip :: "string \<Rightarrow> string" where
  "strip s = rev (dropWhile is_space (rev (dropWhile is_space s)))"

definition digits_value :: "string \<Rightarrow> nat" where
  "digits_value s = foldl (\<lambda>n ch. 10 * n + (of_char ch - 48)) 0 s"

definition unsigned_decimal :: "string \<Rightarrow> rat option" where
  "unsigned_decimal s =
     (let ip = takeWhile is_digit s; rest = dropWhile is_digit s
      in case rest of
           [] \<Rightarrow> (if ip = [] then None else Some (of_nat (digits_value ip)))
         | ch # fp \<Rightarrow>
             (if ch = CHR ''.'' \<and> list_all is_digit fp \<and> (ip \<noteq> [] \<or> fp \<noteq> [])
              then Some (of_nat (digits_value ip) + of_nat (digits_value fp) / 10 ^ length fp)
              else None))"

definition plain_float :: "string \<Rightarrow> rat option" where
  "plain_float s =
     (case strip s of
        [] \<Rightarrow> None
      | ch # t \<Rightarrow>
          (if ch = CHR ''-'' then map_option uminus (unsigned_decimal t)
           else if ch = CHR ''+'' then unsigned_decimal t
           else unsigned_decimal (ch # t)))"

section \<open>Sample files\<close>

text \<open>
  Three small structure files: four atoms at \<open>(0,0,0)\<close>, \<open>(1,1,1)\<close>, \<open>(2,2,2)\<close>,
  \<open>(3,3,3)\<close> between a header and a trailer; a file whose second atom record has a
  letter inside its second coordinate field; and a file without atom records.
\<close>

definition synthetic_pdb :: "string list" where
  "synthetic_pdb =
     [''HEADER    SYNTHETIC'' @ [newline],
      ''ATOM      1  CA  ALA A   1       0.000   0.000   0.000  1.00  0.00           C'' @ [newline],
      ''ATOM      2  CA  ALA A   1       1.000   1.000   1.000  1.00  0.00           C'' @ [newline],
      ''ATOM      3  CA  ALA A   1       2.000   2.000   2.000  1.00  0.00           C'' @ [newline],
      ''ATOM      4  CA  ALA A   1       3.000   3.000   3.000  1.00  0.00           C'' @ [newline],
      ''END'' @ [newline]]"

definition malformed_pdb :: "string list" where
  "malformed_pdb =
     [''ATOM      1  CA  ALA A   1       0.000   0.000   0.000  1.00  0.00           C'' @ [newline],
      ''ATOM      2  CA  ALA A   1       1.000   1.0x0   1.000  1.00  0.00           C'' @ [newline],
      ''END'' @ [newline]]"

definition no_atoms_pdb :: "string list" where
  "no_atoms_pdb = [''HEADER    NOTHING'' @ [newline], ''END'' @ [newline]]"

text \<open>Two five-row arrays with the same rows in different orders.\<close>

definition five_rows :: "rat buffer" where
  "five_rows = Arr2 3 [[0, 0, 0], [1, 1, 1], [2, 2, 2], [3, 3, 3], [4, 4, 4]]"

definition five_rows_shuffled :: "rat buffer" where
  "five_rows_shuffled = Arr2 3 [[3, 3, 3], [1, 1, 1], [4, 4, 4], [0, 0, 0], [2, 2, 2]]"

section \<open>Properties of view synthesis\<close>

lemma generate_views_Arr2:
  assumes "base C < length h" "h ! base C = Arr2 c rows0"
  shows "generate_views rs h C =
           Inr (h @ [Arr2 c (shuffle rs (if flip1 C then map rev rows0 else rows0))],
                C, \<lparr>base = length h, flip1 = False\<rparr>, C\<lparr>flip1 := \<not> flip1 C\<rparr>)"
  using assms
  by (simp add: generate_views_def np_random_permutation_def alloc_def np_random_shuffle_def
      np_flip_axis1_def contents_def nth_append)

lemma length_swap: "length (swap i j xs) = length xs"
  by (simp add: swap_def)

lemma mset_swap_list: "i < length xs \<Longrightarrow> j < length xs \<Longrightarrow> mset (swap i j xs) = mset xs"
  unfolding swap_def by (rule mset_swap)

lemma random_interval_le: "random_interval rs i \<le> i"
  by (simp add: random_interval_def less_Suc_eq_le [symmetric])

lemma mset_shuffle_loop: "k < length xs \<Longrightarrow> mset (shuffle_loop rs k xs) = mset xs"
proof (induction k arbitrary: rs xs)
  case 0
  show ?case by simp
next
  case (Suc k)
  have j: "random_interval rs (Suc k) < length xs"
    using random_interval_le [of rs "Suc k"] Suc.prems by simp
  have "mset (shuffle_loop (advance rs) k (swap (Suc k) (random_interval rs (Suc k)) xs))
          = mset (swap (Suc k) (random_interval rs (Suc k)) xs)"
    using Suc.prems by (intro Suc.IH) (simp add: length_swap)
  also have "\<dots> = mset xs"
    using Suc.prems j by (rule mset_swap_list)
  finally show ?case by simp
qed

lemma mset_shuffle: "mset (shuffle rs xs) = mset xs"
proof (cases xs)
  case Nil
  then show ?thesis by (simp add: shuffle_def)
next
  case (Cons x ys)
  then show ?thesis by (simp add: shuffle_def mset_shuffle_loop)
qed

lemma length_shuffle: "length (shuffle rs xs) = length xs"
  using mset_shuffle [of rs xs] by (metis size_mset)

lemma coordinate_set_base:
  assumes "coordinate_set h C rows"
  obtains rows0 where "base C < length h" "h ! base C = Arr2 3 rows0"
    "rows = (if flip1 C then map rev rows0 else rows0)"
proof -
  from assms have b: "base C < length h" and c: "contents h C = Arr2 3 rows"
    by (simp_all add: coordinate_set_def)
  from c obtain rows0 where r: "h ! base C = Arr2 3 rows0"
    by (cases "h ! base C") (auto simp: contents_def)
  with c have "rows = (if flip1 C then map rev rows0 else rows0)"
    by (simp add: contents_def)
  with b r show thesis by (rule that)
qed

lemma contents_append: "base a < length h \<Longrightarrow> contents (h @ bs) a = contents h a"
  by (simp add: contents_def nth_append)

section \<open>Properties of the parser\<close>

lemma filter_le_upt: "filter (\<lambda>k. k \<le> n) [a..<b] = [a..<min b (Suc n)]"
proof (induction b)
  case 0
  show ?case by simp
next
  case (Suc b)
  show ?case
  proof (cases "b \<le> n")
    case True
    with Suc show ?thesis by (auto simp: min_def)
  next
    case False
    then have "Suc n \<le> b" by simp
    then have "min b (Suc n) = Suc n" "min (Suc b) (Suc n) = Suc n" by simp_all
    with Suc False show ?thesis by auto
  qed
qed

lemma slice_nth: "slice i j s = map (\<lambda>k. s ! k) [i..<min j (length s)]"
proof (rule nth_equalityI)
  show "length (slice i j s) = length (map (\<lambda>k. s ! k) [i..<min j (length s)])"
    by (simp add: slice_def)
next
  fix k
  assume "k < length (slice i j s)"
  then have "k < length s - i \<and> k < j - i"
    by (simp add: slice_def)
  then have k: "k < j - i" "i + k < length s"
    by arith+
  then have "k < min j (length s) - i"
    by arith
  then have "map (\<lambda>k. s ! k) [i..<min j (length s)] ! k = s ! (i + k)"
    by (rule nth_map_upt)
  moreover have "slice i j s ! k = s ! (i + k)"
    using k by (simp add: slice_def)
  ultimately show "slice i j s ! k = map (\<lambda>k. s ! k) [i..<min j (length s)] ! k"
    by simp
qed

lemma slice_columns: "slice i j s = columns (Suc i) j s"
proof -
  have "columns (Suc i) j s = map (\<lambda>k. s ! (k - 1)) [Suc i..<Suc (min j (length s))]"
    by (simp add: columns_def filter_le_upt)
  also have "\<dots> = map (\<lambda>k. s ! (k - 1)) (map Suc [i..<min j (length s)])"
    by (simp only: map_Suc_upt)
  also have "\<dots> = map (\<lambda>k. s ! k) [i..<min j (length s)]"
    by (simp add: o_def)
  finally show ?thesis by (simp add: slice_nth)
qed


lemma coordinate_slices:
  "slice 30 38 line = columns 31 38 line"
  "slice 38 46 line = columns 39 46 line"
  "slice 46 54 line = columns 47 54 line"
  using slice_columns [of 30 38 line] slice_columns [of 38 46 line] slice_columns [of 46 54 line]
  by simp_all

lemma parse_lines_skip:
  "\<not> atom_record line \<Longrightarrow> parse_lines pyfloat (line # rest) acc = parse_lines pyfloat rest acc"
  by (simp add: atom_record_def)

lemma parse_lines_atom_ok:
  assumes "atom_record line" "numeric_fields pyfloat line"
  shows "\<exists>row. row_of_record pyfloat line row \<and>
           parse_lines pyfloat (line # rest) acc = parse_lines pyfloat rest (acc @ [row])"
proof -
  from assms(2) obtain x y z where
    "pyfloat (columns 31 38 line) = Some x" "pyfloat (columns 39 46 line) = Some y"
    "pyfloat (columns 47 54 line) = Some z"
    by (auto simp: numeric_fields_def)
  with assms(1) have "row_of_record pyfloat line [x, y, z] \<and>
      parse_lines pyfloat (line # rest) acc = parse_lines pyfloat rest (acc @ [[x, y, z]])"
    by (simp add: row_of_record_def atom_record_def coordinate_slices)
  then show ?thesis by blast
qed

lemma parse_lines_atom_bad:
  assumes "atom_record line" "\<not> numeric_fields pyfloat line"
  shows "parse_lines pyfloat (line # rest) acc = Inl ValueError"
  using assms
  by (auto simp: numeric_fields_def atom_record_def coordinate_slices split: option.splits)

lemma parse_lines_ok:
  "list_all (\<lambda>line. atom_record line \<longrightarrow> numeric_fields pyfloat line) lines \<Longrightarrow>
     \<exists>rows. parse_lines pyfloat lines acc = Inr (acc @ rows) \<and>
            list_all2 (row_of_record pyfloat) (filter atom_record lines) rows"
proof (induction lines arbitrary: acc)
  case Nil
  show ?case by simp
next
  case (Cons line rest)
  then have rest: "list_all (\<lambda>line. atom_record line \<longrightarrow> numeric_fields pyfloat line) rest"
    by simp
  show ?case
  proof (cases "atom_record line")
    case False
    with Cons.IH [OF rest, of acc] show ?thesis
      by (simp add: parse_lines_skip del: parse_lines.simps)
  next
    case True
    with Cons.prems have "numeric_fields pyfloat line" by simp
    with True obtain row where row: "row_of_record pyfloat line row"
      and step: "parse_lines pyfloat (line # rest) acc = parse_lines pyfloat rest (acc @ [row])"
      using parse_lines_atom_ok by blast
    from Cons.IH [OF rest, of "acc @ [row]"] obtain rows where
      "parse_lines pyfloat rest (acc @ [row]) = Inr ((acc @ [row]) @ rows)"
      "list_all2 (row_of_record pyfloat) (filter atom_record rest) rows"
      by blast
    with step row True have
      "parse_lines pyfloat (line # rest) acc = Inr (acc @ (row # rows)) \<and>
       list_all2 (row_of_record pyfloat) (filter atom_record (line # rest)) (row # rows)"
      by simp
    then show ?thesis by blast
  qed
qed

lemma parse_lines_bad:
  "list_ex (\<lambda>line. atom_record line \<and> \<not> numeric_fields pyfloat line) lines \<Longrightarrow>
     parse_lines pyfloat lines acc = Inl ValueError"
proof (induction lines arbitrary: acc)
  case Nil
  then show ?case by simp
next
  case (Cons line rest)
  show ?case
  proof (cases "atom_record line")
    case False
    with Cons show ?thesis by (simp add: parse_lines_skip del: parse_lines.simps)
  next
    case True
    show ?thesis
    proof (cases "numeric_fields pyfloat line")
      case False
      with True show ?thesis by (rule parse_lines_atom_bad)
    next
      case nf: True
      with True obtain row where
        "parse_lines pyfloat (line # rest) acc = parse_lines pyfloat rest (acc @ [row])"
        using parse_lines_atom_ok by blast
      moreover from Cons.prems True nf have
        "list_ex (\<lambda>line. atom_record line \<and> \<not> numeric_fields pyfloat line) rest"
        by simp
      ultimately show ?thesis using Cons.IH by simp
    qed
  qed
qed

lemma row_of_record_length: "row_of_record pyfloat line row \<Longrightarrow> length row = 3"
proof -
  assume "row_of_record pyfloat line row"
  then have "length (map Some row) = 3"
    by (simp add: row_of_record_def)
  then show ?thesis by simp
qed

section \<open>The claims about view synthesis\<close>

text \<open>
  Claim C3. For every Coordinate Set \<open>C\<close> (a two-dimensional array with three columns)
  and every outcome of the random source, \<^verbatim>\<open>generate_views\<close> returns, and its third
  view holds the rows of \<open>C\<close> in the same order, each with its components reversed:
  where row \<open>i\<close> of \<open>C\<close> is \<open>(x, y, z)\<close>, row \<open>i\<close> of view 3 is \<open>(z, y, x)\<close>.
\<close>

theorem view3_reverses_each_row:
  assumes "coordinate_set h C rows"
  shows "\<exists>h' view1 view2 view3.
           generate_views rs h C = Inr (h', view1, view2, view3) \<and>
           contents h' view3 = Arr2 3 (map rev rows) \<and>
           length (rows_of (contents h' view3)) = length rows \<and>
           (\<forall>i<length rows. \<forall>x y z. rows ! i = [x, y, z] \<longrightarrow>
              rows_of (contents h' view3) ! i = [z, y, x])"
proof -
  from assms obtain rows0 where b: "base C < length h" and r: "h ! base C = Arr2 3 rows0"
    and rows: "rows = (if flip1 C then map rev rows0 else rows0)"
    by (rule coordinate_set_base)
  let ?h' = "h @ [Arr2 3 (shuffle rs rows)]"
  let ?v3 = "C\<lparr>flip1 := \<not> flip1 C\<rparr>"
  have g: "generate_views rs h C = Inr (?h', C, \<lparr>base = length h, flip1 = False\<rparr>, ?v3)"
    using generate_views_Arr2 [OF b r, of rs] rows by simp
  have c3: "contents ?h' ?v3 = Arr2 3 (map rev rows)"
    using b r rows by (simp add: contents_def nth_append rev_map [symmetric] o_def)
  have "\<forall>i<length rows. \<forall>x y z. rows ! i = [x, y, z] \<longrightarrow>
          rows_of (contents ?h' ?v3) ! i = [z, y, x]"
    by (simp add: c3)
  with g c3 show ?thesis by simp
qed

theorem view3_reverses_each_row_witness:
  "coordinate_set [Arr2 3 [[1, 2, 3], [4, 5, 6 :: int]]] \<lparr>base = 0, flip1 = False\<rparr>
     [[1, 2, 3], [4, 5, 6]] \<and>
   (\<exists>h' view1 view2 view3.
      generate_views (\<lambda>k. 0) [Arr2 3 [[1, 2, 3], [4, 5, 6 :: int]]] \<lparr>base = 0, flip1 = False\<rparr>
        = Inr (h', view1, view2, view3) \<and>
      contents h' view3 = Arr2 3 [[3, 2, 1], [6, 5, 4]])"
proof -
  have cs: "coordinate_set [Arr2 3 [[1, 2, 3], [4, 5, 6 :: int]]] \<lparr>base = 0, flip1 = False\<rparr>
              [[1, 2, 3], [4, 5, 6]]"
    by (simp add: coordinate_set_def contents_def)
  from view3_reverses_each_row [OF cs, of "\<lambda>k. 0"] cs show ?thesis
    by auto
qed

text \<open>
  Claim C4. The flip used for view 3 is an involution: on every Coordinate Set \<open>C\<close>
  (empty or not), flipping succeeds, flipping the result succeeds again, and the second
  result is \<open>C\<close> itself, reading the same rows. The first result reads every row
  reversed. The same holds through \<^verbatim>\<open>generate_views\<close>: the third view of the third
  view of \<open>C\<close> is \<open>C\<close>, whatever the random source does in the two calls.
\<close>

theorem flip_is_involution:
  assumes "coordinate_set h C rows"
  shows "(\<exists>F F2. np_flip_axis1 h C = Inr F \<and> np_flip_axis1 h F = Inr F2 \<and>
           contents h F = Arr2 3 (map rev rows) \<and>
           F2 = C \<and> contents h F2 = contents h C) \<and>
         (\<exists>h1 view1 view2 view3 h2 again1 again2 again3.
            generate_views rs h C = Inr (h1, view1, view2, view3) \<and>
            contents h1 view3 = Arr2 3 (map rev rows) \<and>
            generate_views rs' h1 view3 = Inr (h2, again1, again2, again3) \<and>
            again3 = C \<and> contents h2 again3 = Arr2 3 rows)"
proof -
  from assms obtain rows0 where b: "base C < length h" and r: "h ! base C = Arr2 3 rows0"
    and rows: "rows = (if flip1 C then map rev rows0 else rows0)"
    by (rule coordinate_set_base)
  let ?F = "C\<lparr>flip1 := \<not> flip1 C\<rparr>"
  have f1: "np_flip_axis1 h C = Inr ?F"
    using r by (simp add: np_flip_axis1_def)
  have f2: "np_flip_axis1 h ?F = Inr C"
    using r by (simp add: np_flip_axis1_def)
  have cF: "contents h ?F = Arr2 3 (map rev rows)"
    using r rows by (simp add: contents_def rev_map [symmetric] o_def)
  from f1 f2 cF have first: "\<exists>F F2. np_flip_axis1 h C = Inr F \<and> np_flip_axis1 h F = Inr F2 \<and>
           contents h F = Arr2 3 (map rev rows) \<and>
           F2 = C \<and> contents h F2 = contents h C"
    by simp
  let ?h1 = "h @ [Arr2 3 (shuffle rs rows)]"
  let ?h2 = "?h1 @ [Arr2 3 (shuffle rs' (map rev rows))]"
  have g1: "generate_views rs h C = Inr (?h1, C, \<lparr>base = length h, flip1 = False\<rparr>, ?F)"
    using generate_views_Arr2 [OF b r, of rs] rows by simp
  have b1: "base ?F < length ?h1"
    using b by simp
  have r1: "?h1 ! base ?F = Arr2 3 rows0"
    using b r by (simp add: nth_append)
  have c1: "contents ?h1 ?F = Arr2 3 (map rev rows)"
    using b cF by (simp add: contents_append)
  have restored: "?F\<lparr>flip1 := \<not> flip1 ?F\<rparr> = C"
    by simp
  have g2: "generate_views rs' ?h1 ?F = Inr (?h2, ?F, \<lparr>base = length ?h1, flip1 = False\<rparr>, C)"
    using generate_views_Arr2 [OF b1 r1, of rs'] rows restored
    by (simp add: rev_map [symmetric] o_def)
  from assms have "contents h C = Arr2 3 rows"
    by (simp add: coordinate_set_def)
  with b have c2: "contents ?h2 C = Arr2 3 rows"
    by (simp add: contents_def nth_append)
  have second: "\<exists>h1 view1 view2 view3 h2 again1 again2 again3.
            generate_views rs h C = Inr (h1, view1, view2, view3) \<and>
            contents h1 view3 = Arr2 3 (map rev rows) \<and>
            generate_views rs' h1 view3 = Inr (h2, again1, again2, again3) \<and>
            again3 = C \<and> contents h2 again3 = Arr2 3 rows"
    using g1 c1 g2 c2 by blast
  from first second show ?thesis
    by (rule conjI)
qed

theorem flip_is_involution_witness:
  "coordinate_set [Arr2 3 [[1, 2, 3], [4, 5, 6 :: int]]] \<lparr>base = 0, flip1 = False\<rparr>
     [[1, 2, 3], [4, 5, 6]] \<and>
   (\<exists>F F2. np_flip_axis1 [Arr2 3 [[1, 2, 3], [4, 5, 6 :: int]]] \<lparr>base = 0, flip1 = False\<rparr> = Inr F \<and>
      np_flip_axis1 [Arr2 3 [[1, 2, 3], [4, 5, 6 :: int]]] F = Inr F2 \<and>
      contents [Arr2 3 [[1, 2, 3], [4, 5, 6 :: int]]] F = Arr2 3 [[3, 2, 1], [6, 5, 4]] \<and>
      contents [Arr2 3 [[1, 2, 3], [4, 5, 6 :: int]]] F2 = Arr2 3 [[1, 2, 3], [4, 5, 6]]) \<and>
   (\<exists>h1 view1 view2 view3 h2 again1 again2 again3.
      generate_views (\<lambda>k. 0) [Arr2 3 [[1, 2, 3], [4, 5, 6 :: int]]] \<lparr>base = 0, flip1 = False\<rparr>
        = Inr (h1, view1, view2, view3) \<and>
      contents h1 view3 = Arr2 3 [[3, 2, 1], [6, 5, 4]] \<and>
      generate_views (\<lambda>k. 0) h1 view3 = Inr (h2, again1, again2, again3) \<and>
      contents h2 again3 = Arr2 3 [[1, 2, 3], [4, 5, 6]])"
proof -
  have cs: "coordinate_set [Arr2 3 [[1, 2, 3], [4, 5, 6 :: int]]] \<lparr>base = 0, flip1 = False\<rparr>
              [[1, 2, 3], [4, 5, 6]]"
    by (simp add: coordinate_set_def contents_def)
  from flip_is_involution [OF cs, of "\<lambda>k. 0" "\<lambda>k. 0"] have
    one: "\<exists>F F2. np_flip_axis1 [Arr2 3 [[1, 2, 3], [4, 5, 6 :: int]]] \<lparr>base = 0, flip1 = False\<rparr> = Inr F \<and>
      np_flip_axis1 [Arr2 3 [[1, 2, 3], [4, 5, 6 :: int]]] F = Inr F2 \<and>
      contents [Arr2 3 [[1, 2, 3], [4, 5, 6 :: int]]] F = Arr2 3 [[3, 2, 1], [6, 5, 4]] \<and>
      contents [Arr2 3 [[1, 2, 3], [4, 5, 6 :: int]]] F2 = Arr2 3 [[1, 2, 3], [4, 5, 6]]"
    and two: "\<exists>h1 view1 view2 view3 h2 again1 again2 again3.
      generate_views (\<lambda>k. 0) [Arr2 3 [[1, 2, 3], [4, 5, 6 :: int]]] \<lparr>base = 0, flip1 = False\<rparr>
        = Inr (h1, view1, view2, view3) \<and>
      contents h1 view3 = Arr2 3 [[3, 2, 1], [6, 5, 4]] \<and>
      generate_views (\<lambda>k. 0) h1 view3 = Inr (h2, again1, again2, again3) \<and>
      contents h2 again3 = Arr2 3 [[1, 2, 3], [4, 5, 6]]"
    using cs by (auto simp: coordinate_set_def)
  from cs one two show ?thesis
    by (intro conjI)
qed

text \<open>
  Claim C5. For every Coordinate Set \<open>C\<close> and every outcome \<open>rs\<close> of the random
  source, the second view returned by \<^verbatim>\<open>generate_views\<close> is a row-wise permutation of
  \<open>C\<close>: it has the same multiset of rows (so the same rows, each unchanged, and as many
  of them), and sorting its rows gives the same sequence as sorting the rows of \<open>C\<close>.
\<close>

theorem view2_is_row_permutation:
  fixes rows :: "'a::linorder list list"
  assumes "coordinate_set h C rows"
  shows "\<exists>h' view1 view2 view3 rows2.
           generate_views rs h C = Inr (h', view1, view2, view3) \<and>
           contents h' view2 = Arr2 3 rows2 \<and>
           mset rows2 = mset rows \<and> sort rows2 = sort rows \<and>
           set rows2 = set rows \<and> length rows2 = length rows"
proof -
  from assms obtain rows0 where b: "base C < length h" and r: "h ! base C = Arr2 3 rows0"
    and rows: "rows = (if flip1 C then map rev rows0 else rows0)"
    by (rule coordinate_set_base)
  let ?rows2 = "shuffle rs rows"
  let ?h' = "h @ [Arr2 3 ?rows2]"
  let ?v2 = "\<lparr>base = length h, flip1 = False\<rparr>"
  have g: "generate_views rs h C = Inr (?h', C, ?v2, C\<lparr>flip1 := \<not> flip1 C\<rparr>)"
    using generate_views_Arr2 [OF b r, of rs] rows by simp
  have c2: "contents ?h' ?v2 = Arr2 3 ?rows2"
    by (simp add: contents_def)
  have m: "mset ?rows2 = mset rows"
    by (rule mset_shuffle)
  have s: "sort ?rows2 = sort rows"
    by (rule properties_for_sort) (simp_all add: m)
  have st: "set ?rows2 = set rows"
    using m by (rule mset_eq_setD)
  have l: "length ?rows2 = length rows"
    by (rule length_shuffle)
  from g c2 m s st l show ?thesis by blast
qed

theorem view2_is_row_permutation_witness:
  "coordinate_set [Arr2 3 [[1, 2, 3], [4, 5, 6], [7, 8, 9 :: int]]] \<lparr>base = 0, flip1 = False\<rparr>
     [[1, 2, 3], [4, 5, 6], [7, 8, 9]] \<and>
   (\<exists>h' view1 view2 view3 rows2.
      generate_views (\<lambda>k. 0) [Arr2 3 [[1, 2, 3], [4, 5, 6], [7, 8, 9 :: int]]]
        \<lparr>base = 0, flip1 = False\<rparr> = Inr (h', view1, view2, view3) \<and>
      contents h' view2 = Arr2 3 rows2 \<and>
      rows2 = [[4, 5, 6], [7, 8, 9], [1, 2, 3]] \<and>
      mset rows2 = mset [[1, 2, 3], [4, 5, 6], [7, 8, 9]])"
proof -
  have cs: "coordinate_set [Arr2 3 [[1, 2, 3], [4, 5, 6], [7, 8, 9 :: int]]]
              \<lparr>base = 0, flip1 = False\<rparr> [[1, 2, 3], [4, 5, 6], [7, 8, 9]]"
    by (simp add: coordinate_set_def contents_def)
  have sh: "shuffle (\<lambda>k. 0) [[1, 2, 3], [4, 5, 6], [7, 8, 9 :: int]] = [[4, 5, 6], [7, 8, 9], [1, 2, 3]]"
    by code_simp
  from view2_is_row_permutation [OF cs, of "\<lambda>k. 0"] cs show ?thesis
    by (auto simp: generate_views_def np_random_permutation_def alloc_def np_random_shuffle_def
        np_flip_axis1_def contents_def sh)
qed

text \<open>
  Claim C10. \<^verbatim>\<open>generate_views\<close> does not modify its input. Whenever it returns, every
  buffer that existed before the call is unchanged, so the argument \<open>C\<close> denotes the same
  rows in the same order as before; the first view is \<open>C\<close> itself, the flipped view
  shares the buffer of \<open>C\<close> without writing to it, and the permuted view lives in a buffer
  of its own, the only one written. On every Coordinate Set the call does return.
\<close>

theorem generate_views_leaves_input:
  assumes "base C < length h"
  shows "(\<forall>h' view1 view2 view3.
            generate_views rs h C = Inr (h', view1, view2, view3) \<longrightarrow>
              take (length h) h' = h \<and> h' ! base C = h ! base C \<and>
              contents h' C = contents h C \<and>
              view1 = C \<and> base view3 = base C \<and> base view2 \<noteq> base C)
         \<and> (\<forall>rows. coordinate_set h C rows \<longrightarrow>
              (\<exists>h' view1 view2 view3. generate_views rs h C = Inr (h', view1, view2, view3) \<and>
                 contents h' C = Arr2 3 rows))"
proof (intro conjI allI impI)
  fix h' view1 view2 view3
  assume g: "generate_views rs h C = Inr (h', view1, view2, view3)"
  then have h': "h' = (h @ [contents h C])[length h := shuffle_buffer rs ((h @ [contents h C]) ! length h)]"
      and v: "view1 = C" "view2 = \<lparr>base = length h, flip1 = False\<rparr>" "view3 = C\<lparr>flip1 := \<not> flip1 C\<rparr>"
    by (auto simp: generate_views_def np_random_permutation_def alloc_def np_random_shuffle_def
        np_flip_axis1_def split: if_splits)
  from h' have eq: "h' = h @ [shuffle_buffer rs (contents h C)]"
    by simp
  show "take (length h) h' = h" by (simp add: eq)
  show "h' ! base C = h ! base C" using assms by (simp add: eq nth_append)
  show "contents h' C = contents h C" using assms by (simp add: eq contents_append)
  show "view1 = C" by (rule v)
  show "base view3 = base C" by (simp add: v)
  show "base view2 \<noteq> base C" using assms by (simp add: v)
next
  fix rows
  assume cs: "coordinate_set h C rows"
  then obtain rows0 where b: "base C < length h" and r: "h ! base C = Arr2 3 rows0"
    and rows: "rows = (if flip1 C then map rev rows0 else rows0)"
    by (rule coordinate_set_base)
  from cs have c: "contents h C = Arr2 3 rows" by (simp add: coordinate_set_def)
  have "generate_views rs h C =
          Inr (h @ [Arr2 3 (shuffle rs rows)], C, \<lparr>base = length h, flip1 = False\<rparr>, C\<lparr>flip1 := \<not> flip1 C\<rparr>)"
    using generate_views_Arr2 [OF b r, of rs] rows by simp
  moreover have "contents (h @ [Arr2 3 (shuffle rs rows)]) C = Arr2 3 rows"
    using b c by (simp add: contents_append)
  ultimately show "\<exists>h' view1 view2 view3. generate_views rs h C = Inr (h', view1, view2, view3) \<and>
                     contents h' C = Arr2 3 rows"
    by blast
qed

theorem generate_views_leaves_input_witness:
  "base \<lparr>base = 0, flip1 = False\<rparr> < length [Arr2 3 [[1, 2, 3], [4, 5, 6 :: int]]] \<and>
   generate_views (\<lambda>k. 0) [Arr2 3 [[1, 2, 3], [4, 5, 6 :: int]]] \<lparr>base = 0, flip1 = False\<rparr>
     = Inr ([Arr2 3 [[1, 2, 3], [4, 5, 6]], Arr2 3 [[4, 5, 6], [1, 2, 3]]],
            \<lparr>base = 0, flip1 = False\<rparr>, \<lparr>base = 1, flip1 = False\<rparr>, \<lparr>base = 0, flip1 = True\<rparr>) \<and>
   contents [Arr2 3 [[1, 2, 3], [4, 5, 6 :: int]], Arr2 3 [[4, 5, 6], [1, 2, 3]]] \<lparr>base = 0, flip1 = False\<rparr>
     = contents [Arr2 3 [[1, 2, 3], [4, 5, 6 :: int]]] \<lparr>base = 0, flip1 = False\<rparr>"
proof -
  have b: "base \<lparr>base = 0, flip1 = False\<rparr> < length [Arr2 3 [[1, 2, 3], [4, 5, 6 :: int]]]"
    by simp
  have sh: "shuffle (\<lambda>k. 0) [[1, 2, 3], [4, 5, 6 :: int]] = [[4, 5, 6], [1, 2, 3]]"
    by code_simp
  have g: "generate_views (\<lambda>k. 0) [Arr2 3 [[1, 2, 3], [4, 5, 6 :: int]]] \<lparr>base = 0, flip1 = False\<rparr>
     = Inr ([Arr2 3 [[1, 2, 3], [4, 5, 6]], Arr2 3 [[4, 5, 6], [1, 2, 3]]],
            \<lparr>base = 0, flip1 = False\<rparr>, \<lparr>base = 1, flip1 = False\<rparr>, \<lparr>base = 0, flip1 = True\<rparr>)"
    by (simp add: generate_views_def np_random_permutation_def alloc_def np_random_shuffle_def
        np_flip_axis1_def contents_def sh)
  from generate_views_leaves_input [OF b, of "\<lambda>k. 0"] g b show ?thesis
    by simp
qed

section \<open>The claims about the parser\<close>

text \<open>
  Claim C2. For every well-formed input file (the file exists, and in every line that
  begins with the marker \<^verbatim>\<open>ATOM\<close> the texts in columns 31 to 38, 39 to 46 and 47 to 54,
  counted from 1, convert to numbers), \<^verbatim>\<open>parse_pdb\<close> returns an array with one row per
  such line, in file order, the row holding the three numbers converted from those
  columns; the row count is the number of atom records.
\<close>

theorem parse_pdb_rows:
  assumes "files file_path = Some pdb_file"
    and "list_all (\<lambda>line. atom_record line \<longrightarrow> numeric_fields pyfloat line) pdb_file"
  shows "\<exists>coordinates h' rows.
           parse_pdb pyfloat files file_path h = Inr (coordinates, h') \<and>
           contents h' coordinates = array_of_rows rows \<and>
           list_all2 (row_of_record pyfloat) (filter atom_record pdb_file) rows \<and>
           len (contents h' coordinates) = length (filter atom_record pdb_file) \<and>
           (rows \<noteq> [] \<longrightarrow> contents h' coordinates = Arr2 3 rows)"
proof -
  from parse_lines_ok [OF assms(2), of "[]"] obtain rows where
    p: "parse_lines pyfloat pdb_file [] = Inr rows"
    and r: "list_all2 (row_of_record pyfloat) (filter atom_record pdb_file) rows"
    by auto
  let ?c = "\<lparr>base = length h, flip1 = False\<rparr>"
  let ?h' = "h @ [array_of_rows rows]"
  have pp: "parse_pdb pyfloat files file_path h = Inr (?c, ?h')"
    using assms(1) p by (simp add: parse_pdb_def np_array_def alloc_def)
  have c: "contents ?h' ?c = array_of_rows rows"
    by (cases rows) (simp_all add: contents_def array_of_rows_def)
  have l: "len (array_of_rows rows) = length (filter atom_record pdb_file)"
    using list_all2_lengthD [OF r] by (simp add: array_of_rows_def)
  have "rows \<noteq> [] \<Longrightarrow> array_of_rows rows = Arr2 3 rows"
  proof -
    assume ne: "rows \<noteq> []"
    then have "hd rows \<in> set rows" by simp
    with r obtain line where "row_of_record pyfloat line (hd rows)"
      by (auto simp: list_all2_conv_all_nth in_set_conv_nth)
    then have "length (hd rows) = 3" by (rule row_of_record_length)
    with ne show ?thesis by (simp add: array_of_rows_def)
  qed
  with pp c l r show ?thesis by auto
qed

theorem parse_pdb_rows_witness:
  "[''in.pdb'' \<mapsto> synthetic_pdb] ''in.pdb'' = Some synthetic_pdb \<and>
   list_all (\<lambda>line. atom_record line \<longrightarrow> numeric_fields plain_float line) synthetic_pdb \<and>
   length (filter atom_record synthetic_pdb) = 4 \<and>
   parse_pdb plain_float [''in.pdb'' \<mapsto> synthetic_pdb] ''in.pdb'' []
     = Inr (\<lparr>base = 0, flip1 = False\<rparr>, [Arr2 3 [[0, 0, 0], [1, 1, 1], [2, 2, 2], [3, 3, 3]]]) \<and>
   (\<exists>coordinates h' rows.
      parse_pdb plain_float [''in.pdb'' \<mapsto> synthetic_pdb] ''in.pdb'' [] = Inr (coordinates, h') \<and>
      list_all2 (row_of_record plain_float) (filter atom_record synthetic_pdb) rows \<and>
      len (contents h' coordinates) = length (filter atom_record synthetic_pdb) \<and>
      contents h' coordinates = array_of_rows rows)"
proof -
  have f: "[''in.pdb'' \<mapsto> synthetic_pdb] ''in.pdb'' = Some synthetic_pdb"
    by simp
  have wf: "list_all (\<lambda>line. atom_record line \<longrightarrow> numeric_fields plain_float line) synthetic_pdb"
    by code_simp
  have n: "length (filter atom_record synthetic_pdb) = 4"
    by code_simp
  have p: "parse_pdb plain_float [''in.pdb'' \<mapsto> synthetic_pdb] ''in.pdb'' []
     = Inr (\<lparr>base = 0, flip1 = False\<rparr>, [Arr2 3 [[0, 0, 0], [1, 1, 1], [2, 2, 2], [3, 3, 3]]])"
    by code_simp
  from parse_pdb_rows [where files = "[''in.pdb'' \<mapsto> synthetic_pdb]" and file_path = "''in.pdb''"
         and pdb_file = synthetic_pdb and pyfloat = plain_float and h = "[]", OF f wf] f wf n p
  show ?thesis
    by blast
qed

text \<open>
  Claim C7. \<^verbatim>\<open>parse_pdb\<close> raises the conversion error (\<^verbatim>\<open>ValueError\<close>, the spec's
  ParseError) exactly when the file has a line that begins with the atom-record marker
  and whose text in one of the three coordinate column ranges does not convert to a
  number (malformed, or missing because the line is too short). Nothing else about the
  lines makes it raise; its only other failure is a file that cannot be opened. The error
  is not caught: \<^verbatim>\<open>main\<close> fails with it.
\<close>

theorem parser_raises_exactly_on_bad_fields:
  "(parse_pdb pyfloat files file_path h = Inl ValueError \<longleftrightarrow>
      (\<exists>pdb_file. files file_path = Some pdb_file \<and>
         list_ex (\<lambda>line. atom_record line \<and> \<not> numeric_fields pyfloat line) pdb_file)) \<and>
   (parse_pdb pyfloat files file_path h = Inl IOError \<longleftrightarrow> files file_path = None) \<and>
   (\<forall>e. parse_pdb pyfloat files file_path h = Inl e \<longrightarrow> e = ValueError \<or> e = IOError) \<and>
   (\<forall>e. parse_pdb pyfloat files input_pdb_path h = Inl e \<longrightarrow>
      main_data pyfloat files rs h = Inl e)"
proof -
  have main: "\<forall>e. parse_pdb pyfloat files input_pdb_path h = Inl e \<longrightarrow>
      main_data pyfloat files rs h = Inl e"
    by (simp add: main_data_def)
  show ?thesis
  proof (cases "files file_path")
    case None
    then have "parse_pdb pyfloat files file_path h = Inl IOError"
      by (simp add: parse_pdb_def)
    with None main show ?thesis by simp
  next
    case (Some pdb_file)
    show ?thesis
    proof (cases "list_ex (\<lambda>line. atom_record line \<and> \<not> numeric_fields pyfloat line) pdb_file")
      case True
      then have "parse_lines pyfloat pdb_file [] = Inl ValueError"
        by (rule parse_lines_bad)
      with Some have "parse_pdb pyfloat files file_path h = Inl ValueError"
        by (simp add: parse_pdb_def)
      with Some True main show ?thesis by simp
    next
      case False
      then have "list_all (\<lambda>line. atom_record line \<longrightarrow> numeric_fields pyfloat line) pdb_file"
        by (auto simp: list_all_iff list_ex_iff)
      from parse_lines_ok [OF this, of "[]"] obtain rows where
        "parse_lines pyfloat pdb_file [] = Inr rows" by auto
      with Some have "parse_pdb pyfloat files file_path h = Inr (np_array rows h)"
        by (simp add: parse_pdb_def)
      with Some False main show ?thesis by simp
    qed
  qed
qed

theorem parser_raises_exactly_on_bad_fields_witness:
  "list_ex (\<lambda>line. atom_record line \<and> \<not> numeric_fields plain_float line) malformed_pdb \<and>
   parse_pdb plain_float [input_pdb_path \<mapsto> malformed_pdb] input_pdb_path [] = Inl ValueError \<and>
   main_data plain_float [input_pdb_path \<mapsto> malformed_pdb] (\<lambda>k. 0) [] = Inl ValueError \<and>
   parse_pdb plain_float Map.empty input_pdb_path [] = Inl IOError"
proof -
  have b: "list_ex (\<lambda>line. atom_record line \<and> \<not> numeric_fields plain_float line) malformed_pdb"
    by code_simp
  have f: "[input_pdb_path \<mapsto> malformed_pdb] input_pdb_path = Some malformed_pdb"
    by simp
  from parser_raises_exactly_on_bad_fields
         [of plain_float "[input_pdb_path \<mapsto> malformed_pdb]" input_pdb_path "[]" "\<lambda>k. 0"]
       parser_raises_exactly_on_bad_fields
         [of plain_float Map.empty input_pdb_path "[]" "\<lambda>k. 0"]
       b f
  show ?thesis by auto
qed

section \<open>The degenerate file\<close>

text \<open>
  Claim C1 says that for a file with zero atom records \<^verbatim>\<open>parse_pdb\<close> returns an empty
  Coordinate Set on which \<^verbatim>\<open>generate_views\<close> returns three empty views without
  raising. On the file without atom records the parser returns the one-dimensional array
  of shape \<open>(0,)\<close>, and \<^verbatim>\<open>generate_views\<close> raises \<^verbatim>\<open>AxisError\<close> on it: that array has
  no second axis to flip.
\<close>

theorem empty_file_views_counterexample:
  "parse_pdb plain_float [input_pdb_path \<mapsto> no_atoms_pdb] input_pdb_path []
     = Inr (\<lparr>base = 0, flip1 = False\<rparr>, [Arr1 []]) \<and>
   generate_views (\<lambda>k. 0) [Arr1 ([] :: rat list)] \<lparr>base = 0, flip1 = False\<rparr> = Inl AxisError"
proof -
  have "parse_lines plain_float no_atoms_pdb [] = Inr []"
    by code_simp
  then have "parse_pdb plain_float [input_pdb_path \<mapsto> no_atoms_pdb] input_pdb_path []
     = Inr (\<lparr>base = 0, flip1 = False\<rparr>, [Arr1 []])"
    by (simp add: parse_pdb_def np_array_def alloc_def array_of_rows_def)
  moreover have "generate_views (\<lambda>k. 0) [Arr1 ([] :: rat list)] \<lparr>base = 0, flip1 = False\<rparr> = Inl AxisError"
    by (simp add: generate_views_def np_random_permutation_def alloc_def np_random_shuffle_def
        np_flip_axis1_def contents_def)
  ultimately show ?thesis by simp
qed

text \<open>
  Claim C1, as amended. For every file with zero atom records \<^verbatim>\<open>parse_pdb\<close> returns an
  empty one-dimensional array (length 0), and \<^verbatim>\<open>generate_views\<close> applied to that array
  raises \<^verbatim>\<open>AxisError\<close>. On every two-dimensional Coordinate Set, the one with zero rows
  and three columns included, \<^verbatim>\<open>generate_views\<close> raises nothing and returns three views
  of the length of its argument.
\<close>

theorem zero_atom_records:
  assumes "files file_path = Some pdb_file" and "filter atom_record pdb_file = []"
  shows "(\<exists>coordinates h'.
            parse_pdb pyfloat files file_path h = Inr (coordinates, h') \<and>
            contents h' coordinates = Arr1 [] \<and> len (contents h' coordinates) = 0 \<and>
            generate_views rs h' coordinates = Inl AxisError) \<and>
         (\<forall>h0 C rows. coordinate_set h0 C rows \<longrightarrow>
            (\<exists>h1 view1 view2 view3.
               generate_views rs (h0 :: 'a heap) C = Inr (h1, view1, view2, view3) \<and>
               len (contents h1 view1) = length rows \<and>
               len (contents h1 view2) = length rows \<and>
               len (contents h1 view3) = length rows))"
proof (intro conjI allI impI)
  from assms(2) have "list_all (\<lambda>line. atom_record line \<longrightarrow> numeric_fields pyfloat line) pdb_file"
    by (auto simp: list_all_iff filter_empty_conv)
  from parse_lines_ok [OF this, of "[]"] assms(2)
  have p: "parse_lines pyfloat pdb_file [] = Inr []"
    by auto
  let ?c = "\<lparr>base = length h, flip1 = False\<rparr>"
  let ?h' = "h @ [Arr1 []]"
  have pp: "parse_pdb pyfloat files file_path h = Inr (?c, ?h')"
    using assms(1) p by (simp add: parse_pdb_def np_array_def alloc_def array_of_rows_def)
  have c: "contents ?h' ?c = Arr1 []"
    by (simp add: contents_def)
  have g: "generate_views rs ?h' ?c = Inl AxisError"
    by (simp add: generate_views_def np_random_permutation_def alloc_def np_random_shuffle_def
        np_flip_axis1_def contents_def nth_append)
  from pp c g show "\<exists>coordinates h'.
            parse_pdb pyfloat files file_path h = Inr (coordinates, h') \<and>
            contents h' coordinates = Arr1 [] \<and> len (contents h' coordinates) = 0 \<and>
            generate_views rs h' coordinates = Inl AxisError"
    by simp
next
  fix h0 :: "'a heap" and C rows
  assume cs: "coordinate_set h0 C rows"
  then obtain rows0 where b: "base C < length h0" and r: "h0 ! base C = Arr2 3 rows0"
    and rows: "rows = (if flip1 C then map rev rows0 else rows0)"
    by (rule coordinate_set_base)
  let ?h1 = "h0 @ [Arr2 3 (shuffle rs rows)]"
  have g: "generate_views rs h0 C =
          Inr (?h1, C, \<lparr>base = length h0, flip1 = False\<rparr>, C\<lparr>flip1 := \<not> flip1 C\<rparr>)"
    using generate_views_Arr2 [OF b r, of rs] rows by simp
  have l1: "len (contents ?h1 C) = length rows"
    using b r rows by (simp add: contents_def nth_append)
  have l2: "len (contents ?h1 \<lparr>base = length h0, flip1 = False\<rparr>) = length rows"
    by (simp add: contents_def length_shuffle)
  have l3: "len (contents ?h1 (C\<lparr>flip1 := \<not> flip1 C\<rparr>)) = length rows"
    using b r rows by (simp add: contents_def nth_append)
  from g l1 l2 l3 show "\<exists>h1 view1 view2 view3.
               generate_views rs h0 C = Inr (h1, view1, view2, view3) \<and>
               len (contents h1 view1) = length rows \<and>
               len (contents h1 view2) = length rows \<and>
               len (contents h1 view3) = length rows"
    by blast
qed

theorem zero_atom_records_witness:
  "[input_pdb_path \<mapsto> no_atoms_pdb] input_pdb_path = Some no_atoms_pdb \<and>
   filter atom_record no_atoms_pdb = [] \<and>
   (\<exists>coordinates h'.
      parse_pdb plain_float [input_pdb_path \<mapsto> no_atoms_pdb] input_pdb_path [] = Inr (coordinates, h') \<and>
      contents h' coordinates = Arr1 [] \<and>
      generate_views (\<lambda>k. 0) h' coordinates = Inl AxisError) \<and>
   coordinate_set [Arr2 3 ([] :: rat list list)] \<lparr>base = 0, flip1 = False\<rparr> [] \<and>
   (\<exists>h1 view1 view2 view3.
      generate_views (\<lambda>k. 0) [Arr2 3 ([] :: rat list list)] \<lparr>base = 0, flip1 = False\<rparr>
        = Inr (h1, view1, view2, view3) \<and>
      len (contents h1 view1) = 0 \<and> len (contents h1 view2) = 0 \<and> len (contents h1 view3) = 0)"
proof -
  have f: "[input_pdb_path \<mapsto> no_atoms_pdb] input_pdb_path = Some no_atoms_pdb"
    by simp
  have n: "filter atom_record no_atoms_pdb = []"
    by code_simp
  have cs: "coordinate_set [Arr2 3 ([] :: rat list list)] \<lparr>base = 0, flip1 = False\<rparr> []"
    by (simp add: coordinate_set_def contents_def)
  from zero_atom_records [where files = "[input_pdb_path \<mapsto> no_atoms_pdb]"
         and file_path = input_pdb_path and pdb_file = no_atoms_pdb and pyfloat = plain_float
         and h = "[]" and rs = "\<lambda>k. 0", OF f n] f n cs
  show ?thesis
    by fastforce
qed

section \<open>The claim about the training data\<close>

lemma vstack_three:
  "np_vstack [Arr2 c r1, Arr2 c r2, Arr2 c r3] = Inr (Arr2 c (r1 @ r2 @ r3))"
  by (simp add: np_vstack_def)

lemma tile_three_one: "np_tile (Arr2 c rows) 3 (Suc 0) = Arr2 c (rows @ rows @ rows)"
proof -
  have "map (\<lambda>row. concat (replicate (Suc 0) row)) rows = rows"
    by (induction rows) simp_all
  then show ?thesis
    by (simp add: np_tile_def numeral_3_eq_3)
qed

text \<open>
  Claim C6. For every \<open>N\<close>-row Coordinate Set, the stacked training input built in
  \<^verbatim>\<open>main\<close> from the three views has \<open>3N\<close> rows and 3 columns, and so has the tiled
  target; the target's rows \<open>0..N-1\<close>, \<open>N..2N-1\<close> and \<open>2N..3N-1\<close> are each the
  \<open>N\<close> original rows. The stacked input is the original rows, then a permutation of
  them, then the reversed rows.
\<close>

theorem training_data_shapes:
  assumes "coordinate_set h C rows"
  shows "\<exists>input_data output_data.
           training_data rs h C = Inr (input_data, output_data) \<and>
           shape input_data = [3 * length rows, 3] \<and>
           shape output_data = [3 * length rows, 3] \<and>
           list_all (\<lambda>r. length r = 3) (rows_of input_data) \<and>
           list_all (\<lambda>r. length r = 3) (rows_of output_data) \<and>
           rows_of output_data = rows @ rows @ rows \<and>
           (\<forall>i<length rows.
              rows_of output_data ! i = rows ! i \<and>
              rows_of output_data ! (length rows + i) = rows ! i \<and>
              rows_of output_data ! (2 * length rows + i) = rows ! i) \<and>
           (\<exists>rows2. mset rows2 = mset rows \<and>
              rows_of input_data = rows @ rows2 @ map rev rows)"
proof -
  from assms obtain rows0 where b: "base C < length h" and r: "h ! base C = Arr2 3 rows0"
    and rows: "rows = (if flip1 C then map rev rows0 else rows0)"
    by (rule coordinate_set_base)
  from assms have three: "list_all (\<lambda>r. length r = 3) rows"
    by (simp add: coordinate_set_def)
  let ?rows2 = "shuffle rs rows"
  let ?h' = "h @ [Arr2 3 ?rows2]"
  let ?v2 = "\<lparr>base = length h, flip1 = False\<rparr>"
  let ?v3 = "C\<lparr>flip1 := \<not> flip1 C\<rparr>"
  let ?inp = "Arr2 3 (rows @ ?rows2 @ map rev rows)"
  let ?out = "Arr2 3 (rows @ rows @ rows)"
  have g: "generate_views rs h C = Inr (?h', C, ?v2, ?v3)"
    using generate_views_Arr2 [OF b r, of rs] rows by simp
  have c1: "contents ?h' C = Arr2 3 rows"
    using b r rows by (simp add: contents_def nth_append)
  have c2: "contents ?h' ?v2 = Arr2 3 ?rows2"
    by (simp add: contents_def)
  have c3: "contents ?h' ?v3 = Arr2 3 (map rev rows)"
    using b r rows by (simp add: contents_def nth_append rev_map [symmetric] o_def)
  have t: "training_data rs h C = Inr (?inp, ?out)"
    by (simp add: training_data_def g c1 c2 c3 vstack_three tile_three_one)
  have m: "mset ?rows2 = mset rows"
    by (rule mset_shuffle)
  then have "set ?rows2 = set rows"
    by (rule mset_eq_setD)
  with three have three_in: "list_all (\<lambda>r. length r = 3) (rows @ ?rows2 @ map rev rows)"
    by (auto simp: list_all_iff)
  have blocks: "\<forall>i<length rows.
              (rows @ rows @ rows) ! i = rows ! i \<and>
              (rows @ rows @ rows) ! (length rows + i) = rows ! i \<and>
              (rows @ rows @ rows) ! (2 * length rows + i) = rows ! i"
    by (simp add: nth_append)
  have "shape ?inp = [3 * length rows, 3]"
    by (simp add: length_shuffle)
  moreover have "shape ?out = [3 * length rows, 3]"
    by simp
  moreover have "list_all (\<lambda>r. length r = 3) (rows_of ?out)"
    using three by simp
  moreover have "\<exists>rows2. mset rows2 = mset rows \<and> rows_of ?inp = rows @ rows2 @ map rev rows"
    using m by auto
  ultimately show ?thesis
    using t three_in blocks by auto
qed

theorem training_data_shapes_witness:
  "coordinate_set [Arr2 3 [[1, 2, 3], [4, 5, 6 :: int]]] \<lparr>base = 0, flip1 = False\<rparr>
     [[1, 2, 3], [4, 5, 6]] \<and>
   training_data (\<lambda>k. 0) [Arr2 3 [[1, 2, 3], [4, 5, 6 :: int]]] \<lparr>base = 0, flip1 = False\<rparr>
     = Inr (Arr2 3 [[1, 2, 3], [4, 5, 6], [4, 5, 6], [1, 2, 3], [3, 2, 1], [6, 5, 4]],
            Arr2 3 [[1, 2, 3], [4, 5, 6], [1, 2, 3], [4, 5, 6], [1, 2, 3], [4, 5, 6]]) \<and>
   (\<exists>input_data output_data.
      training_data (\<lambda>k. 0) [Arr2 3 [[1, 2, 3], [4, 5, 6 :: int]]] \<lparr>base = 0, flip1 = False\<rparr>
        = Inr (input_data, output_data) \<and>
      shape input_data = [6, 3] \<and> shape output_data = [6, 3])"
proof -
  have cs: "coordinate_set [Arr2 3 [[1, 2, 3], [4, 5, 6 :: int]]] \<lparr>base = 0, flip1 = False\<rparr>
              [[1, 2, 3], [4, 5, 6]]"
    by (simp add: coordinate_set_def contents_def)
  have t: "training_data (\<lambda>k. 0) [Arr2 3 [[1, 2, 3], [4, 5, 6 :: int]]] \<lparr>base = 0, flip1 = False\<rparr>
     = Inr (Arr2 3 [[1, 2, 3], [4, 5, 6], [4, 5, 6], [1, 2, 3], [3, 2, 1], [6, 5, 4]],
            Arr2 3 [[1, 2, 3], [4, 5, 6], [1, 2, 3], [4, 5, 6], [1, 2, 3], [4, 5, 6]])"
    by code_simp
  from training_data_shapes [OF cs, of "\<lambda>k. 0"] cs t show ?thesis
    by simp
qed

section \<open>The claim about the train/test split\<close>

lemma split_indices_partition:
  assumes "n_test \<le> n" and "split_indices rng n n_test = (train, test)"
  shows "mset (train @ test) = mset [0..<n] \<and> length test = n_test \<and> length train = n - n_test"
proof -
  let ?perm = "shuffle rng [0..<n]"
  have len: "length ?perm = n"
    by (simp add: length_shuffle)
  from assms(2) have test: "test = take n_test ?perm"
    and train: "train = take (n - n_test) (drop n_test ?perm)"
    by (simp_all add: split_indices_def Let_def)
  from train len have train': "train = drop n_test ?perm"
    by simp
  have "mset (train @ test) = mset (drop n_test ?perm) + mset (take n_test ?perm)"
    by (simp add: test train')
  also have "\<dots> = mset (take n_test ?perm @ drop n_test ?perm)"
    by (metis mset_append union_commute)
  also have "\<dots> = mset ?perm"
    by (simp only: append_take_drop_id)
  also have "\<dots> = mset [0..<n]"
    by (rule mset_shuffle)
  finally have "mset (train @ test) = mset [0..<n]" .
  moreover have "length test = n_test"
    using assms(1) len by (simp add: test)
  moreover have "length train = n - n_test"
    using len by (simp add: train')
  ultimately show ?thesis by simp
qed

lemma train_model_split_unfold:
  "train_model_split RandomState g X y =
     (if len X \<noteq> len y then Inl ValueError
      else case train_model_assignment RandomState g X of
             Inl e \<Rightarrow> Inl e
           | Inr (train, test) \<Rightarrow>
               Inr (safe_indexing X train, safe_indexing X test,
                    safe_indexing y train, safe_indexing y test))"
  by (simp add: train_model_split_def train_test_split_def train_model_assignment_def)

lemma train_model_assignment_seeded:
  "train_model_assignment RandomState g X =
     (let n_test = nat \<lceil>(2 / 10 :: rat) * of_nat (len X)\<rceil>
      in if len X - n_test = 0 then Inl ValueError
         else Inr (split_indices (RandomState 42) (len X) n_test))"
  by (simp add: train_model_assignment_def split_assignment_def check_random_state_def Let_def)

text \<open>
  Claim C9. The split is deterministic across runs: whatever the state of the
  process-wide generator (the randomness of the permutation view), \<^verbatim>\<open>train_model\<close>
  splits identical data identically, because the split draws from a generator of its
  own, seeded with 42. The assignment of row indices to the two parts depends on the
  number of rows only. When the split succeeds, the two parts together hold every row
  index once, the held-out part having \<open>\<lceil>0.2 \<times> n\<rceil>\<close> of them.
\<close>

theorem split_is_reproducible:
  "train_model_split RandomState g1 X y = train_model_split RandomState g2 X y \<and>
   train_model_assignment RandomState g1 X = train_model_assignment RandomState g2 X \<and>
   (len X' = len X \<longrightarrow>
      train_model_assignment RandomState g1 X' = train_model_assignment RandomState g2 X) \<and>
   train_model_split RandomState g1 X y =
     (if len X \<noteq> len y then Inl ValueError
      else case train_model_assignment RandomState g1 X of
             Inl e \<Rightarrow> Inl e
           | Inr (train, test) \<Rightarrow>
               Inr (safe_indexing X train, safe_indexing X test,
                    safe_indexing y train, safe_indexing y test)) \<and>
   (\<forall>train test. train_model_assignment RandomState g1 X = Inr (train, test) \<longrightarrow>
      mset (train @ test) = mset [0..<len X] \<and>
      length test = nat \<lceil>(2 / 10 :: rat) * of_nat (len X)\<rceil> \<and>
      length train = len X - length test)"
proof -
  have a: "train_model_assignment RandomState g1 X = train_model_assignment RandomState g2 X"
    by (simp only: train_model_assignment_seeded)
  have b: "train_model_split RandomState g1 X y = train_model_split RandomState g2 X y"
    by (simp only: train_model_split_unfold a)
  have c: "len X' = len X \<longrightarrow>
      train_model_assignment RandomState g1 X' = train_model_assignment RandomState g2 X"
  proof
    assume e: "len X' = len X"
    show "train_model_assignment RandomState g1 X' = train_model_assignment RandomState g2 X"
      unfolding train_model_assignment_seeded e by (rule refl)
  qed
  have d: "\<forall>train test. train_model_assignment RandomState g1 X = Inr (train, test) \<longrightarrow>
      mset (train @ test) = mset [0..<len X] \<and>
      length test = nat \<lceil>(2 / 10 :: rat) * of_nat (len X)\<rceil> \<and>
      length train = len X - length test"
  proof (intro allI impI)
    fix train test
    assume r: "train_model_assignment RandomState g1 X = Inr (train, test)"
    let ?nt = "nat \<lceil>(2 / 10 :: rat) * of_nat (len X)\<rceil>"
    from r have pos: "len X - ?nt \<noteq> 0"
      and s: "split_indices (RandomState 42) (len X) ?nt = (train, test)"
      by (simp_all add: train_model_assignment_seeded Let_def split: if_splits)
    from pos have "?nt \<le> len X" by simp
    from split_indices_partition [OF this s]
    show "mset (train @ test) = mset [0..<len X] \<and>
      length test = nat \<lceil>(2 / 10 :: rat) * of_nat (len X)\<rceil> \<and>
      length train = len X - length test"
      by simp
  qed
  from a b c d train_model_split_unfold [of RandomState g1 X y] show ?thesis
    by blast
qed

theorem split_is_reproducible_witness:
  "len five_rows_shuffled = len five_rows \<and>
   train_model_assignment (\<lambda>seed k. seed + k) (\<lambda>k. 0) five_rows = Inr ([1, 4, 3, 2], [0]) \<and>
   train_model_assignment (\<lambda>seed k. seed + k) (\<lambda>k. 7) five_rows = Inr ([1, 4, 3, 2], [0]) \<and>
   train_model_assignment (\<lambda>seed k. seed + k) (\<lambda>k. 0) five_rows_shuffled = Inr ([1, 4, 3, 2], [0]) \<and>
   train_model_split (\<lambda>seed k. seed + k) (\<lambda>k. 0) five_rows five_rows
     = train_model_split (\<lambda>seed k. seed + k) (\<lambda>k. 7) five_rows five_rows \<and>
   mset ([1, 4, 3, 2] @ [0]) = mset [0..<len five_rows]"
proof -
  have l: "len five_rows_shuffled = len five_rows"
    by (simp add: five_rows_def five_rows_shuffled_def)
  have e: "train_model_assignment (\<lambda>seed k. seed + k) (\<lambda>k. 0) five_rows = Inr ([1, 4, 3, 2], [0])"
    by code_simp
  from split_is_reproducible [of "\<lambda>seed k. seed + k" "\<lambda>k. 0" five_rows five_rows "\<lambda>k. 7" five_rows_shuffled]
       split_is_reproducible [of "\<lambda>seed k. seed + k" "\<lambda>k. 7" five_rows five_rows "\<lambda>k. 0" five_rows]
       l e
  show ?thesis
    by (metis (no_types, lifting))
qed

text \<open>
  By contrast, a split without a seed (\<^verbatim>\<open>random_state=None\<close>) follows the process-wide
  generator.
\<close>

lemma unseeded_split_follows_global_generator:
  "split_assignment (\<lambda>seed k. seed + k) (\<lambda>k. 0) 5 (2 / 10) None = Inr ([2, 3, 4, 0], [1]) \<and>
   split_assignment (\<lambda>seed k. seed + k) (\<lambda>k. 1) 5 (2 / 10) None = Inr ([2, 3, 4, 1], [0])"
  by code_simp

section \<open>The claim about the writer\<close>

lemma length_rjust: "length (rjust w s) = max w (length s)"
  by (simp add: rjust_def max_def)

lemma digit_value: "d < 10 \<Longrightarrow> of_char (digit_char d) - 48 = d"
proof -
  assume "d < 10"
  then have "d = 0 \<or> d = 1 \<or> d = 2 \<or> d = 3 \<or> d = 4 \<or> d = 5 \<or> d = 6 \<or> d = 7
    \<or> d = 8 \<or> d = 9"
    by arith
  then show ?thesis
    by (elim disjE) (simp_all add: digit_char_def)
qed

lemma digits_value_snoc: "digits_value (s @ [ch]) = 10 * digits_value s + (of_char ch - 48)"
  by (simp add: digits_value_def)

lemma digits_value_str_nat: "digits_value (str_nat n) = n"
proof (induction n rule: str_nat.induct)
  case (1 n)
  show ?case
  proof (cases "n < 10")
    case True
    then show ?thesis
      using digits_value_snoc [of "[]" "digit_char n"]
      by (simp add: str_nat.simps [of n] digit_value digits_value_def)
  next
    case False
    with "1" have "digits_value (str_nat (n div 10)) = n div 10" by simp
    with False show ?thesis
      by (simp add: str_nat.simps [of n] digits_value_snoc digit_value)
  qed
qed

lemma length_str_nat: "n < 10 ^ Suc k \<Longrightarrow> length (str_nat n) \<le> Suc k"
proof (induction k arbitrary: n)
  case 0
  then show ?case by (simp add: str_nat.simps [of n])
next
  case (Suc k)
  show ?case
  proof (cases "n < 10")
    case True
    then show ?thesis by (simp add: str_nat.simps [of n])
  next
    case False
    from Suc.prems have "n div 10 < 10 ^ Suc k" by simp
    then have "length (str_nat (n div 10)) \<le> Suc k" by (rule Suc.IH)
    with False show ?thesis by (simp add: str_nat.simps [of n])
  qed
qed

lemma atom_number_field: "n < 10000 \<Longrightarrow> length (rjust 4 (str_nat n)) = 4"
proof -
  assume "n < 10000"
  then have "n < 10 ^ Suc 3" by simp
  then have "length (str_nat n) \<le> Suc 3" by (rule length_str_nat)
  then show ?thesis by (simp add: length_rjust)
qed

lemma write_records_ok:
  "list_all (\<lambda>r. length r = 3) rows \<Longrightarrow>
     \<exists>lines. write_records fmt3f i rows written = Inr (written @ lines) \<and>
             length lines = length rows \<and>
             (\<forall>k<length rows. pdb_record fmt3f (i + k) (rows ! k) = Inr (lines ! k))"
proof (induction rows arbitrary: i written)
  case Nil
  show ?case by simp
next
  case (Cons coord rest)
  then have c: "length coord = 3" and rest: "list_all (\<lambda>r. length r = 3) rest"
    by simp_all
  from c obtain record_line where p: "pdb_record fmt3f i coord = Inr record_line"
    by (simp add: pdb_record_def)
  from Cons.IH [OF rest, of "Suc i" "written @ [record_line]"] obtain lines where
    w: "write_records fmt3f (Suc i) rest (written @ [record_line])
          = Inr ((written @ [record_line]) @ lines)"
    and l: "length lines = length rest"
    and each: "\<forall>k<length rest. pdb_record fmt3f (Suc i + k) (rest ! k) = Inr (lines ! k)"
    by blast
  have "write_records fmt3f i (coord # rest) written = Inr (written @ (record_line # lines))"
    using p w by simp
  moreover have "length (record_line # lines) = length (coord # rest)"
    using l by simp
  moreover have "\<forall>k<length (coord # rest).
      pdb_record fmt3f (i + k) ((coord # rest) ! k) = Inr ((record_line # lines) ! k)"
  proof (intro allI impI)
    fix k
    assume "k < length (coord # rest)"
    then show "pdb_record fmt3f (i + k) ((coord # rest) ! k) = Inr ((record_line # lines) ! k)"
      using p each by (cases k) simp_all
  qed
  ultimately show ?case by blast
qed

lemma str_nat_small:
  "str_nat (Suc 0) = ''1''" "str_nat (Suc (Suc 0)) = ''2''" "str_nat (Suc (Suc (Suc 0))) = ''3''"
  "str_nat (Suc (Suc (Suc (Suc 0)))) = ''4''"
  by (simp_all add: str_nat.simps digit_char_def)

lemma fixed3_small:
  "fixed3 0 = ''0.000''" "fixed3 1 = ''1.000''" "fixed3 2 = ''2.000''" "fixed3 3 = ''3.000''"
  by (simp_all add: fixed3_def round_half_even_def str_nat.simps digit_char_def)

lemma rjust_small:
  "rjust 4 [c1] = [CHR '' '', CHR '' '', CHR '' '', c1]"
  "rjust 7 [c1, c2, c3, c4, c5] = [CHR '' '', CHR '' '', c1, c2, c3, c4, c5]"
  by (simp_all add: rjust_def numeral_2_eq_2 numeral_3_eq_3)

lemma round_half_even_accuracy: "\<bar>of_int (round_half_even q) - q\<bar> \<le> 1 / 2"
proof -
  have "of_int \<lfloor>q\<rfloor> \<le> q" "q < of_int \<lfloor>q\<rfloor> + 1"
    by linarith+
  then show ?thesis
    by (auto simp: round_half_even_def Let_def)
qed

lemma round_half_even_nonneg: "0 \<le> q \<Longrightarrow> 0 \<le> round_half_even q"
  by (auto simp: round_half_even_def Let_def)

lemma round_half_even_upper:
  assumes "q < of_int k + 1 / 2"
  shows "round_half_even q \<le> k"
proof -
  have f: "of_int \<lfloor>q\<rfloor> \<le> q"
    by linarith
  with assms have "of_int \<lfloor>q\<rfloor> < (of_int k + 1 / 2 :: rat)"
    by linarith
  then have "(of_int \<lfloor>q\<rfloor> :: rat) < of_int (k + 1)"
    by simp
  then have le: "\<lfloor>q\<rfloor> \<le> k"
    by simp
  show ?thesis
  proof (cases "\<lfloor>q\<rfloor> = k")
    case True
    with assms have "q - of_int \<lfloor>q\<rfloor> < 1 / 2"
      by simp
    with True show ?thesis
      by (simp add: round_half_even_def Let_def)
  next
    case False
    with le have "\<lfloor>q\<rfloor> + 1 \<le> k"
      by simp
    with le show ?thesis
      by (simp add: round_half_even_def Let_def)
  qed
qed

lemma round_half_even_tie:
  assumes "\<bar>of_int (round_half_even q) - q\<bar> = 1 / 2"
  shows "even (round_half_even q)"
proof -
  have f: "of_int \<lfloor>q\<rfloor> \<le> q" "q < of_int \<lfloor>q\<rfloor> + 1"
    by linarith+
  show ?thesis
  proof (cases "q - of_int \<lfloor>q\<rfloor> > 1 / 2 \<or> (q - of_int \<lfloor>q\<rfloor> = 1 / 2 \<and> odd \<lfloor>q\<rfloor>)")
    case True
    then have r: "round_half_even q = \<lfloor>q\<rfloor> + 1"
      by (simp add: round_half_even_def Let_def)
    with assms f have "q - of_int \<lfloor>q\<rfloor> = 1 / 2"
      by simp
    with True have "odd \<lfloor>q\<rfloor>"
      by simp
    with r show ?thesis
      by simp
  next
    case False
    then have r: "round_half_even q = \<lfloor>q\<rfloor>"
      by (auto simp: round_half_even_def Let_def)
    with assms f have "q - of_int \<lfloor>q\<rfloor> = 1 / 2"
      by simp
    with False have "even \<lfloor>q\<rfloor>"
      by simp
    with r show ?thesis
      by simp
  qed
qed

lemma even_last_digit: "even (n mod 10) \<longleftrightarrow> even (n :: nat)"
proof -
  have "n = 10 * (n div 10) + n mod 10"
    by simp
  then have "even n \<longleftrightarrow> even (10 * (n div 10) + n mod 10)"
    by simp
  also have "\<dots> \<longleftrightarrow> even (n mod 10)"
    by (simp only: even_add) simp
  finally show ?thesis
    by simp
qed

lemma decimal_split:
  "(n :: nat) = 1000 * (n div 1000) + 100 * (n div 100 mod 10) + 10 * (n div 10 mod 10) + n mod 10"
proof -
  have h: "n div 100 = n div 10 div 10" and t: "n div 1000 = n div 10 div 10 div 10"
    by (simp_all add: div_mult2_eq [symmetric])
  have a: "n = 10 * (n div 10) + n mod 10"
    by simp
  have b: "n div 10 = 10 * (n div 10 div 10) + n div 10 mod 10"
    by simp
  have c: "n div 10 div 10 = 10 * (n div 10 div 10 div 10) + n div 10 div 10 mod 10"
    by simp
  from a b c show ?thesis
    unfolding h t by linarith
qed

lemma fixed3_form:
  "\<exists>ip d1 d2 d3. d1 < 10 \<and> d2 < 10 \<and> d3 < 10 \<and>
     fixed3 v = (if v < 0 then ''-'' else []) @ str_nat ip @ ''.''
                @ [digit_char d1, digit_char d2, digit_char d3] \<and>
     digits_value (str_nat ip) = ip \<and>
     \<bar>of_nat (1000 * ip + 100 * d1 + 10 * d2 + d3) - \<bar>v\<bar> * 1000\<bar> \<le> 1 / 2 \<and>
     (\<bar>of_nat (1000 * ip + 100 * d1 + 10 * d2 + d3) - \<bar>v\<bar> * 1000\<bar> = 1 / 2 \<longrightarrow> even d3)"
proof -
  let ?r = "round_half_even (\<bar>v\<bar> * 1000)"
  let ?n = "nat ?r"
  have nonneg: "0 \<le> ?r"
    by (rule round_half_even_nonneg) simp
  then have eq: "(of_nat ?n :: rat) = of_int ?r"
    by (rule of_nat_nat)
  have acc: "\<bar>of_nat ?n - \<bar>v\<bar> * 1000\<bar> \<le> 1 / 2"
    unfolding eq by (rule round_half_even_accuracy)
  have tie: "\<bar>of_nat ?n - \<bar>v\<bar> * 1000\<bar> = 1 / 2 \<longrightarrow> even (?n mod 10)"
  proof
    assume "\<bar>of_nat ?n - \<bar>v\<bar> * 1000\<bar> = 1 / 2"
    then have "even ?r"
      unfolding eq by (rule round_half_even_tie)
    with nonneg have "even ?n"
      by (simp add: even_nat_iff)
    then show "even (?n mod 10)"
      by (simp only: even_last_digit)
  qed
  have split: "1000 * (?n div 1000) + 100 * (?n div 100 mod 10) + 10 * (?n div 10 mod 10) + ?n mod 10 = ?n"
    by (rule decimal_split [symmetric])
  have acc': "\<bar>of_nat (1000 * (?n div 1000) + 100 * (?n div 100 mod 10) + 10 * (?n div 10 mod 10)
                 + ?n mod 10) - \<bar>v\<bar> * 1000\<bar> \<le> 1 / 2"
    by (simp only: split acc)
  have tie': "\<bar>of_nat (1000 * (?n div 1000) + 100 * (?n div 100 mod 10) + 10 * (?n div 10 mod 10)
                 + ?n mod 10) - \<bar>v\<bar> * 1000\<bar> = 1 / 2 \<longrightarrow> even (?n mod 10)"
    unfolding split by (rule tie)
  have form: "fixed3 v = (if v < 0 then ''-'' else []) @ str_nat (?n div 1000) @ ''.''
                @ [digit_char (?n div 100 mod 10), digit_char (?n div 10 mod 10), digit_char (?n mod 10)]"
    by (simp add: fixed3_def Let_def)
  have d1: "?n div 100 mod 10 < 10" and d2: "?n div 10 mod 10 < 10" and d3: "?n mod 10 < 10"
    by simp_all
  have ip: "digits_value (str_nat (?n div 1000)) = ?n div 1000"
    by (rule digits_value_str_nat)
  show ?thesis
    by (intro exI conjI) (rule d1 d2 d3 form ip acc' tie')+
qed

lemma fixed3_fits:
  assumes "- (199999 / 2000) < v" "v < 1999999 / 2000"
  shows "length (rjust 7 (fixed3 v)) = 7"
proof -
  let ?r = "round_half_even (\<bar>v\<bar> * 1000)"
  let ?n = "nat ?r"
  have form: "fixed3 v = (if v < 0 then ''-'' else []) @ str_nat (?n div 1000) @ ''.''
                @ [digit_char (?n div 100 mod 10), digit_char (?n div 10 mod 10), digit_char (?n mod 10)]"
    by (simp add: fixed3_def Let_def)
  have "length (fixed3 v) \<le> 7"
  proof (cases "v < 0")
    case True
    with assms(1) have "\<bar>v\<bar> * 1000 < of_int 99999 + 1 / 2"
      by simp
    then have "?r \<le> 99999"
      by (rule round_half_even_upper)
    then have "?n div 1000 < 10 ^ Suc 1"
      by simp
    then have "length (str_nat (?n div 1000)) \<le> Suc 1"
      by (rule length_str_nat)
    with True show ?thesis
      by (simp add: form)
  next
    case False
    with assms(2) have "\<bar>v\<bar> * 1000 < of_int 999999 + 1 / 2"
      by simp
    then have "?r \<le> 999999"
      by (rule round_half_even_upper)
    then have "?n div 1000 < 10 ^ Suc 2"
      by simp
    then have "length (str_nat (?n div 1000)) \<le> Suc 2"
      by (rule length_str_nat)
    with False show ?thesis
      by (simp add: form)
  qed
  then show ?thesis
    by (simp add: length_rjust)
qed

lemma fixed3_fractions:
  "fixed3 (1 / 16) = ''0.062''" "fixed3 (3 / 16) = ''0.188''" "fixed3 (- (5 / 2)) = ''-2.500''"
  by code_simp+

lemma fixed3_wide:
  "fixed3 1000 = ''1000.000''" "fixed3 (- 100) = ''-100.000''"
  by (simp_all add: fixed3_def round_half_even_def Let_def str_nat.simps digit_char_def)

lemma rjust_six: "rjust 7 [c1, c2, c3, c4, c5, c6] = [CHR '' '', c1, c2, c3, c4, c5, c6]"
  by (simp add: rjust_def)

lemma rjust_eight: "rjust 7 [c1, c2, c3, c4, c5, c6, c7, c8] = [c1, c2, c3, c4, c5, c6, c7, c8]"
  by (simp add: rjust_def)

lemma fractions_written:
  "save_pdb fixed3 (Arr2 3 [[1 / 16, 3 / 16, - (5 / 2)]])
     = Inr [''ATOM     1  CA  ALA A   1       0.062   0.188  -2.500  1.00  0.00           C'' @ [newline]]"
  by (simp add: pdb_record_def fixed3_fractions str_nat_small rjust_small rjust_six)

text \<open>
  Claim C8 says that, for every Coordinate Set, the atom number stands in a width-4 field
  and each coordinate in a 7-character field. The row \<open>(1000, -100, 0)\<close> is written with
  two coordinate fields of eight characters, and the atom number of the 10000th row is
  written with five: a field is padded up to its width and never cut.
\<close>

theorem fixed_width_fields_counterexample:
  "save_pdb fixed3 (Arr2 3 [[1000, - 100, 0]])
     = Inr [''ATOM     1  CA  ALA A   1     1000.000 -100.000   0.000  1.00  0.00           C'' @ [newline]] \<and>
   length (rjust 7 (fixed3 1000)) = 8 \<and> length (rjust 7 (fixed3 (- 100))) = 8 \<and>
   length (rjust 4 (str_nat (9999 + 1))) = 5"
proof -
  have a: "save_pdb fixed3 (Arr2 3 [[1000, - 100, 0]])
     = Inr [''ATOM     1  CA  ALA A   1     1000.000 -100.000   0.000  1.00  0.00           C'' @ [newline]]"
    by (simp add: pdb_record_def fixed3_wide fixed3_small str_nat_small rjust_small rjust_eight)
  have b: "length (rjust 7 (fixed3 1000)) = 8" "length (rjust 7 (fixed3 (- 100))) = 8"
    by (simp_all add: fixed3_wide rjust_eight)
  have c: "length (rjust 4 (str_nat (9999 + 1))) = 5"
    by (simp add: str_nat.simps rjust_def)
  from a b c show ?thesis
    by (intro conjI)
qed

text \<open>
  Claim C8, as amended. For every \<open>N\<close>-row Coordinate Set of finite numbers
  \<^verbatim>\<open>save_pdb\<close> writes exactly \<open>N\<close> record lines, one per row and in row order. Line
  \<open>i\<close> (counted from 0) carries the atom number \<open>i + 1\<close> in decimal, right-aligned in a
  field of minimum width 4 (exactly four characters while the number is below 10000),
  and each of the three coordinates with three decimals, right-aligned in a field of
  minimum width 7, between the fixed texts of the record. A coordinate is written as an
  optional minus sign, the decimal digits of the integer part, a point and exactly three
  digits; the number written is the nearest one with three decimals, a tie going to the
  even last digit. The coordinate field has exactly seven characters when the value lies
  strictly between \<open>-99.9995\<close> and \<open>999.9995\<close>; a longer text extends the field. Every
  line begins with \<^verbatim>\<open>ATOM\<close> and ends with \<^verbatim>\<open>C\<close> before its line terminator. For the
  four atoms at \<open>(0,0,0)\<close>, \<open>(1,1,1)\<close>, \<open>(2,2,2)\<close>, \<open>(3,3,3)\<close> the four lines are
  computed below, together with a row of fractions.
\<close>

theorem save_pdb_records:
  assumes "list_all (\<lambda>r. length r = 3) rows"
  shows "\<exists>lines.
           save_pdb fixed3 (Arr2 3 rows) = Inr lines \<and> length lines = length rows \<and>
           (\<forall>i<length rows.
              lines ! i =
                ''ATOM  '' @ rjust 4 (str_nat (i + 1)) @ ''  CA  ALA A   1     ''
                @ rjust 7 (fixed3 (rows ! i ! 0)) @ '' '' @ rjust 7 (fixed3 (rows ! i ! 1)) @ '' ''
                @ rjust 7 (fixed3 (rows ! i ! 2)) @ ''  1.00  0.00           C'' @ [newline] \<and>
              startswith (lines ! i) ''ATOM'' \<and>
              (\<exists>body. lines ! i = body @ ''C'' @ [newline]) \<and>
              digits_value (str_nat (i + 1)) = i + 1 \<and>
              length (rjust 4 (str_nat (i + 1))) = max 4 (length (str_nat (i + 1))) \<and>
              (i + 1 < 10000 \<longrightarrow> length (rjust 4 (str_nat (i + 1))) = 4) \<and>
              (\<forall>j<3.
                 length (rjust 7 (fixed3 (rows ! i ! j))) = max 7 (length (fixed3 (rows ! i ! j))) \<and>
                 (- (199999 / 2000) < rows ! i ! j \<and> rows ! i ! j < 1999999 / 2000 \<longrightarrow>
                    length (rjust 7 (fixed3 (rows ! i ! j))) = 7) \<and>
                 (\<exists>ip d1 d2 d3. d1 < 10 \<and> d2 < 10 \<and> d3 < 10 \<and>
                    fixed3 (rows ! i ! j) =
                      (if rows ! i ! j < 0 then ''-'' else []) @ str_nat ip @ ''.''
                      @ [digit_char d1, digit_char d2, digit_char d3] \<and>
                    digits_value (str_nat ip) = ip \<and>
                    \<bar>of_nat (1000 * ip + 100 * d1 + 10 * d2 + d3) - \<bar>rows ! i ! j\<bar> * 1000\<bar> \<le> 1 / 2 \<and>
                    (\<bar>of_nat (1000 * ip + 100 * d1 + 10 * d2 + d3) - \<bar>rows ! i ! j\<bar> * 1000\<bar> = 1 / 2
                       \<longrightarrow> even d3))))"
proof -
  from write_records_ok [OF assms, of fixed3 0 "[]"] obtain lines where
    w: "write_records fixed3 0 rows [] = Inr lines"
    and l: "length lines = length rows"
    and each: "\<forall>k<length rows. pdb_record fixed3 k (rows ! k) = Inr (lines ! k)"
    by auto
  have field: "\<And>v. length (rjust 7 (fixed3 v)) = max 7 (length (fixed3 v)) \<and>
                 (- (199999 / 2000) < v \<and> v < 1999999 / 2000 \<longrightarrow>
                    length (rjust 7 (fixed3 v)) = 7) \<and>
                 (\<exists>ip d1 d2 d3. d1 < 10 \<and> d2 < 10 \<and> d3 < 10 \<and>
                    fixed3 v =
                      (if v < 0 then ''-'' else []) @ str_nat ip @ ''.''
                      @ [digit_char d1, digit_char d2, digit_char d3] \<and>
                    digits_value (str_nat ip) = ip \<and>
                    \<bar>of_nat (1000 * ip + 100 * d1 + 10 * d2 + d3) - \<bar>v\<bar> * 1000\<bar> \<le> 1 / 2 \<and>
                    (\<bar>of_nat (1000 * ip + 100 * d1 + 10 * d2 + d3) - \<bar>v\<bar> * 1000\<bar> = 1 / 2
                       \<longrightarrow> even d3))"
  proof (intro conjI impI)
    fix v :: rat
    show "length (rjust 7 (fixed3 v)) = max 7 (length (fixed3 v))"
      by (rule length_rjust)
    show "\<exists>ip d1 d2 d3. d1 < 10 \<and> d2 < 10 \<and> d3 < 10 \<and>
                    fixed3 v =
                      (if v < 0 then ''-'' else []) @ str_nat ip @ ''.''
                      @ [digit_char d1, digit_char d2, digit_char d3] \<and>
                    digits_value (str_nat ip) = ip \<and>
                    \<bar>of_nat (1000 * ip + 100 * d1 + 10 * d2 + d3) - \<bar>v\<bar> * 1000\<bar> \<le> 1 / 2 \<and>
                    (\<bar>of_nat (1000 * ip + 100 * d1 + 10 * d2 + d3) - \<bar>v\<bar> * 1000\<bar> = 1 / 2
                       \<longrightarrow> even d3)"
      by (rule fixed3_form)
  next
    fix v :: rat
    assume "- (199999 / 2000) < v \<and> v < 1999999 / 2000"
    then show "length (rjust 7 (fixed3 v)) = 7"
      by (simp add: fixed3_fits)
  qed
  have each_line: "\<forall>i<length rows.
              lines ! i =
                ''ATOM  '' @ rjust 4 (str_nat (i + 1)) @ ''  CA  ALA A   1     ''
                @ rjust 7 (fixed3 (rows ! i ! 0)) @ '' '' @ rjust 7 (fixed3 (rows ! i ! 1)) @ '' ''
                @ rjust 7 (fixed3 (rows ! i ! 2)) @ ''  1.00  0.00           C'' @ [newline] \<and>
              startswith (lines ! i) ''ATOM'' \<and>
              (\<exists>body. lines ! i = body @ ''C'' @ [newline]) \<and>
              digits_value (str_nat (i + 1)) = i + 1 \<and>
              length (rjust 4 (str_nat (i + 1))) = max 4 (length (str_nat (i + 1))) \<and>
              (i + 1 < 10000 \<longrightarrow> length (rjust 4 (str_nat (i + 1))) = 4) \<and>
              (\<forall>j<3.
                 length (rjust 7 (fixed3 (rows ! i ! j))) = max 7 (length (fixed3 (rows ! i ! j))) \<and>
                 (- (199999 / 2000) < rows ! i ! j \<and> rows ! i ! j < 1999999 / 2000 \<longrightarrow>
                    length (rjust 7 (fixed3 (rows ! i ! j))) = 7) \<and>
                 (\<exists>ip d1 d2 d3. d1 < 10 \<and> d2 < 10 \<and> d3 < 10 \<and>
                    fixed3 (rows ! i ! j) =
                      (if rows ! i ! j < 0 then ''-'' else []) @ str_nat ip @ ''.''
                      @ [digit_char d1, digit_char d2, digit_char d3] \<and>
                    digits_value (str_nat ip) = ip \<and>
                    \<bar>of_nat (1000 * ip + 100 * d1 + 10 * d2 + d3) - \<bar>rows ! i ! j\<bar> * 1000\<bar> \<le> 1 / 2 \<and>
                    (\<bar>of_nat (1000 * ip + 100 * d1 + 10 * d2 + d3) - \<bar>rows ! i ! j\<bar> * 1000\<bar> = 1 / 2
                       \<longrightarrow> even d3)))"
  proof (intro allI impI)
    fix i
    assume i: "i < length rows"
    with assms have three: "length (rows ! i) = 3"
      by (simp add: list_all_length)
    from each i have "pdb_record fixed3 i (rows ! i) = Inr (lines ! i)"
      by simp
    with three have line_text: "lines ! i =
                ''ATOM  '' @ rjust 4 (str_nat (i + 1)) @ ''  CA  ALA A   1     ''
                @ rjust 7 (fixed3 (rows ! i ! 0)) @ '' '' @ rjust 7 (fixed3 (rows ! i ! 1)) @ '' ''
                @ rjust 7 (fixed3 (rows ! i ! 2)) @ ''  1.00  0.00           C'' @ [newline]"
      by (simp add: pdb_record_def)
    have st: "startswith (lines ! i) ''ATOM''"
      by (simp add: line_text startswith_def)
    have en: "\<exists>body. lines ! i = body @ ''C'' @ [newline]"
    proof
      show "lines ! i = (''ATOM  '' @ rjust 4 (str_nat (i + 1)) @ ''  CA  ALA A   1     ''
                @ rjust 7 (fixed3 (rows ! i ! 0)) @ '' '' @ rjust 7 (fixed3 (rows ! i ! 1)) @ '' ''
                @ rjust 7 (fixed3 (rows ! i ! 2)) @ ''  1.00  0.00           '') @ ''C'' @ [newline]"
        by (simp add: line_text)
    qed
    have dv: "digits_value (str_nat (i + 1)) = i + 1"
      by (rule digits_value_str_nat)
    have w4: "length (rjust 4 (str_nat (i + 1))) = max 4 (length (str_nat (i + 1)))"
      by (rule length_rjust)
    have w4': "i + 1 < 10000 \<longrightarrow> length (rjust 4 (str_nat (i + 1))) = 4"
      by (simp add: atom_number_field)
    have cols: "\<forall>j<3.
                 length (rjust 7 (fixed3 (rows ! i ! j))) = max 7 (length (fixed3 (rows ! i ! j))) \<and>
                 (- (199999 / 2000) < rows ! i ! j \<and> rows ! i ! j < 1999999 / 2000 \<longrightarrow>
                    length (rjust 7 (fixed3 (rows ! i ! j))) = 7) \<and>
                 (\<exists>ip d1 d2 d3. d1 < 10 \<and> d2 < 10 \<and> d3 < 10 \<and>
                    fixed3 (rows ! i ! j) =
                      (if rows ! i ! j < 0 then ''-'' else []) @ str_nat ip @ ''.''
                      @ [digit_char d1, digit_char d2, digit_char d3] \<and>
                    digits_value (str_nat ip) = ip \<and>
                    \<bar>of_nat (1000 * ip + 100 * d1 + 10 * d2 + d3) - \<bar>rows ! i ! j\<bar> * 1000\<bar> \<le> 1 / 2 \<and>
                    (\<bar>of_nat (1000 * ip + 100 * d1 + 10 * d2 + d3) - \<bar>rows ! i ! j\<bar> * 1000\<bar> = 1 / 2
                       \<longrightarrow> even d3))"
      by (intro allI impI) (rule field)
    show "lines ! i =
                ''ATOM  '' @ rjust 4 (str_nat (i + 1)) @ ''  CA  ALA A   1     ''
                @ rjust 7 (fixed3 (rows ! i ! 0)) @ '' '' @ rjust 7 (fixed3 (rows ! i ! 1)) @ '' ''
                @ rjust 7 (fixed3 (rows ! i ! 2)) @ ''  1.00  0.00           C'' @ [newline] \<and>
              startswith (lines ! i) ''ATOM'' \<and>
              (\<exists>body. lines ! i = body @ ''C'' @ [newline]) \<and>
              digits_value (str_nat (i + 1)) = i + 1 \<and>
              length (rjust 4 (str_nat (i + 1))) = max 4 (length (str_nat (i + 1))) \<and>
              (i + 1 < 10000 \<longrightarrow> length (rjust 4 (str_nat (i + 1))) = 4) \<and>
              (\<forall>j<3.
                 length (rjust 7 (fixed3 (rows ! i ! j))) = max 7 (length (fixed3 (rows ! i ! j))) \<and>
                 (- (199999 / 2000) < rows ! i ! j \<and> rows ! i ! j < 1999999 / 2000 \<longrightarrow>
                    length (rjust 7 (fixed3 (rows ! i ! j))) = 7) \<and>
                 (\<exists>ip d1 d2 d3. d1 < 10 \<and> d2 < 10 \<and> d3 < 10 \<and>
                    fixed3 (rows ! i ! j) =
                      (if rows ! i ! j < 0 then ''-'' else []) @ str_nat ip @ ''.''
                      @ [digit_char d1, digit_char d2, digit_char d3] \<and>
                    digits_value (str_nat ip) = ip \<and>
                    \<bar>of_nat (1000 * ip + 100 * d1 + 10 * d2 + d3) - \<bar>rows ! i ! j\<bar> * 1000\<bar> \<le> 1 / 2 \<and>
                    (\<bar>of_nat (1000 * ip + 100 * d1 + 10 * d2 + d3) - \<bar>rows ! i ! j\<bar> * 1000\<bar> = 1 / 2
                       \<longrightarrow> even d3)))"
      by (intro conjI line_text st en dv w4 w4' cols)
  qed
  have s: "save_pdb fixed3 (Arr2 3 rows) = Inr lines"
    using w by simp
  show ?thesis
    by (rule exI [of _ lines]) (intro conjI s l each_line)
qed

theorem save_pdb_records_witness:
  "list_all (\<lambda>r. length r = 3) [[0, 0, 0], [1, 1, 1], [2, 2, 2], [3, 3, 3 :: rat]] \<and>
   save_pdb fixed3 (Arr2 3 [[0, 0, 0], [1, 1, 1], [2, 2, 2], [3, 3, 3]])
     = Inr [''ATOM     1  CA  ALA A   1       0.000   0.000   0.000  1.00  0.00           C'' @ [newline],
            ''ATOM     2  CA  ALA A   1       1.000   1.000   1.000  1.00  0.00           C'' @ [newline],
            ''ATOM     3  CA  ALA A   1       2.000   2.000   2.000  1.00  0.00           C'' @ [newline],
            ''ATOM     4  CA  ALA A   1       3.000   3.000   3.000  1.00  0.00           C'' @ [newline]] \<and>
   (\<exists>lines. save_pdb fixed3 (Arr2 3 [[0, 0, 0], [1, 1, 1], [2, 2, 2], [3, 3, 3]]) = Inr lines \<and>
      length lines = 4) \<and>
   save_pdb fixed3 (Arr2 3 [[1 / 16, 3 / 16, - (5 / 2)]])
     = Inr [''ATOM     1  CA  ALA A   1       0.062   0.188  -2.500  1.00  0.00           C'' @ [newline]]"
proof -
  have a: "list_all (\<lambda>r. length r = 3) [[0, 0, 0], [1, 1, 1], [2, 2, 2], [3, 3, 3 :: rat]]"
    by simp
  have e: "save_pdb fixed3 (Arr2 3 [[0, 0, 0], [1, 1, 1], [2, 2, 2], [3, 3, 3]])
     = Inr [''ATOM     1  CA  ALA A   1       0.000   0.000   0.000  1.00  0.00           C'' @ [newline],
            ''ATOM     2  CA  ALA A   1       1.000   1.000   1.000  1.00  0.00           C'' @ [newline],
            ''ATOM     3  CA  ALA A   1       2.000   2.000   2.000  1.00  0.00           C'' @ [newline],
            ''ATOM     4  CA  ALA A   1       3.000   3.000   3.000  1.00  0.00           C'' @ [newline]]"
    by (simp add: pdb_record_def fixed3_small str_nat_small rjust_small)
  from save_pdb_records [OF a] obtain lines where
    s: "save_pdb fixed3 (Arr2 3 [[0, 0, 0], [1, 1, 1], [2, 2, 2], [3, 3, 3]]) = Inr lines"
    and l: "length lines = length [[0, 0, 0], [1, 1, 1], [2, 2, 2], [3, 3, 3 :: rat]]"
    by (elim exE conjE)
  from l have l4: "length lines = 4" by simp
  have ex: "\<exists>lines. save_pdb fixed3 (Arr2 3 [[0, 0, 0], [1, 1, 1], [2, 2, 2], [3, 3, 3]]) = Inr lines \<and>
      length lines = 4"
    by (rule exI [of _ lines]) (intro conjI s l4)
  show ?thesis
    by (intro conjI a e ex fractions_written)
qed

end
